theory Spec2Isabelle
  imports Complex_Main
begin

section \<open>Numbers\<close>

text \<open>
  The program is JavaScript: every number is an IEEE double. The embedding reads the
  arithmetic of the source over the reals (\<open>Math.floor\<close> is \<open>floor\<close>, \<open>Math.log10\<close> is
  \<open>log 10\<close>, \<open>Math.pow(10, x)\<close> is \<open>10 powr x\<close>), indices and pixel counts are natural
  numbers, and array elements are integers.

  The rounding of doubles is modelled in the harmonics of \<open>calculateFrequencyAnalysis\<close>,
  where it changes what the program returns: the bin that a harmonic reads is the floor of
  a product and quotient that, computed in doubles, can fall just below a whole number.
  From the fundamental frequency on, every arithmetic result of that function is therefore
  rounded by \<open>dbl\<close>. The upper limit of the search for the fundamental,
  \<open>Math.floor((2000 * fftSize) / sampleRate)\<close>, is read over the reals: for a whole
  transform size and sample rate the doubles give the same number (lemma
  \<open>lowFreqLimit_doubles\<close>).
\<close>

text \<open>
  \<open>dbl x\<close> is the double nearest to \<open>x\<close>: 53 significant bits, ties to the even
  significand. The exponent is not bounded (no overflow, no subnormal numbers).
\<close>

definition roundEven :: "real \<Rightarrow> int" where
  "roundEven q =
     (let f = \<lfloor>q\<rfloor>; r = q - real_of_int f
      in if r < 1 / 2 then f
         else if 1 / 2 < r then f + 1
         else if even f then f else f + 1)"

definition dbl :: "real \<Rightarrow> real" where
  "dbl x =
     (if x = 0 then 0
      else
        (let e = \<lfloor>log 2 \<bar>x\<bar>\<rfloor> - 52
         in real_of_int (roundEven (x / 2 powr real_of_int e)) * 2 powr real_of_int e))"

section \<open>Frequency mapping (\<open>binToY\<close>, \<open>yToFreq\<close>, \<open>freqToBin\<close>)\<close>

definition minFreq :: real where
  "minFreq = 5"

definition maxFreq :: real where
  "maxFreq = 20000"

text \<open>The frequency of a bin, \<open>(binIndex * sampleRate) / fftSize\<close>.\<close>

definition binFreq :: "nat \<Rightarrow> real \<Rightarrow> real \<Rightarrow> real" where
  "binFreq binIndex sampleRate fftSize = (real binIndex * sampleRate) / fftSize"

text \<open>\<open>binToY\<close>: the row of a bin, or \<open>-1\<close> when the bin is outside 5 .. 20000 Hz.\<close>

definition binToY :: "nat \<Rightarrow> nat \<Rightarrow> nat \<Rightarrow> bool \<Rightarrow> real \<Rightarrow> real \<Rightarrow> int" where
  "binToY binIndex bufferLength height logarithmic sampleRate fftSize =
     (let f = binFreq binIndex sampleRate fftSize in
      if f < minFreq \<or> f > maxFreq then - 1
      else if logarithmic then
        (let logMin = log 10 minFreq;
             logMax = log 10 maxFreq;
             logFreq = log 10 f;
             frac = 1 - (logFreq - logMin) / (logMax - logMin)
         in \<lfloor>frac * (real height - 1)\<rfloor>)
      else
        (let frac = 1 - (f - minFreq) / (maxFreq - minFreq)
         in \<lfloor>frac * (real height - 1)\<rfloor>))"

text \<open>\<open>yToFreq\<close>: the frequency at the centre of row \<open>y\<close>.\<close>

definition yToFreq :: "real \<Rightarrow> nat \<Rightarrow> bool \<Rightarrow> real" where
  "yToFreq y height logarithmic =
     (if logarithmic then
        (let logMin = log 10 minFreq;
             logMax = log 10 maxFreq;
             frac = 1 - (y + 0.5) / (real height - 1);
             logFreq = logMin + frac * (logMax - logMin)
         in 10 powr logFreq)
      else
        (let frac = 1 - (y + 0.5) / (real height - 1)
         in minFreq + frac * (maxFreq - minFreq)))"

definition freqToBin :: "real \<Rightarrow> real \<Rightarrow> real \<Rightarrow> int" where
  "freqToBin freq sampleRate fftSize = \<lfloor>(freq * fftSize) / sampleRate\<rfloor>"

text \<open>
  The fraction of the column height as the specification writes it, for the comparison
  with \<open>binToY\<close>: \<open>1 - (log10 f - log10 5) / (log10 20000 - log10 5)\<close> in logarithmic
  mode and \<open>1 - (f - 5) / (20000 - 5)\<close> in linear mode.
\<close>

definition specFrac :: "bool \<Rightarrow> real \<Rightarrow> real" where
  "specFrac logarithmic f =
     (if logarithmic then 1 - (log 10 f - log 10 5) / (log 10 20000 - log 10 5)
      else 1 - (f - 5) / (20000 - 5))"

text \<open>
  The frequency interval of a pixel row: row \<open>y\<close> covers the positions from \<open>y\<close> to
  \<open>y + 1\<close>, whose frequencies are \<open>yToFreq\<close> half a row above and below the centre.
\<close>

definition rowTopFreq :: "int \<Rightarrow> nat \<Rightarrow> bool \<Rightarrow> real" where
  "rowTopFreq y height logarithmic = yToFreq (real_of_int y - 0.5) height logarithmic"

definition rowBottomFreq :: "int \<Rightarrow> nat \<Rightarrow> bool \<Rightarrow> real" where
  "rowBottomFreq y height logarithmic = yToFreq (real_of_int y + 0.5) height logarithmic"

definition rowSpan :: "int \<Rightarrow> nat \<Rightarrow> bool \<Rightarrow> real" where
  "rowSpan y height logarithmic =
     rowTopFreq y height logarithmic - rowBottomFreq y height logarithmic"

section \<open>Spectral analysis (\<open>calculateFrequencyAnalysis\<close>)\<close>

text \<open>
  The magnitude array is a list of integers: the callers pass a \<open>Uint8Array\<close> (values
  0 .. 255), the function itself accepts any array of numbers. An absent array is \<open>None\<close>.
\<close>

record harmonic =
  order :: nat
  frequency :: real
  amplitude :: int

record analysis =
  topResonating :: real
  fundamental :: "real option"
  harmonics :: "harmonic list"

text \<open>The first loop: \<open>maxValue\<close> and \<open>peakBin\<close>, updated on a strictly larger value.\<close>

fun peakStep :: "int list \<Rightarrow> int \<times> nat \<Rightarrow> nat \<Rightarrow> int \<times> nat" where
  "peakStep a (maxValue, peakBin) i =
     (if a ! i > maxValue then (a ! i, i) else (maxValue, peakBin))"

definition peakScan :: "int list \<Rightarrow> int \<times> nat" where
  "peakScan a = foldl (peakStep a) (0, 0) [0..<length a]"

definition lowFreqLimit :: "real \<Rightarrow> real \<Rightarrow> int" where
  "lowFreqLimit sampleRate fftSize = \<lfloor>(2000 * fftSize) / sampleRate\<rfloor>"

text \<open>
  The second loop, from bin 1 to \<open>Math.min(lowFreqLimit, length) - 1\<close>: a value above the
  best so far and above 50 that is a local peak becomes the fundamental candidate.
\<close>

fun fundStep :: "int list \<Rightarrow> int \<times> nat \<Rightarrow> nat \<Rightarrow> int \<times> nat" where
  "fundStep a (fundamentalValue, fundamentalBin) i =
     (let v = a ! i in
      if v > fundamentalValue \<and> v > 50 then
        (let isPeak = (i = 0 \<or> a ! (i - 1) < v)
                      \<and> (int i = int (length a) - 1 \<or> a ! (i + 1) < v)
         in if isPeak then (v, i) else (fundamentalValue, fundamentalBin))
      else (fundamentalValue, fundamentalBin))"

definition fundUpper :: "int list \<Rightarrow> real \<Rightarrow> real \<Rightarrow> nat" where
  "fundUpper a sampleRate fftSize = nat (min (lowFreqLimit sampleRate fftSize) (int (length a)))"

definition fundScan :: "int list \<Rightarrow> real \<Rightarrow> real \<Rightarrow> int \<times> nat" where
  "fundScan a sampleRate fftSize =
     foldl (fundStep a) (0, 0) [1..<fundUpper a sampleRate fftSize]"

text \<open>
  One turn of the harmonics loop. The source tests \<open>harmonicBin < length\<close> only; a read
  at a negative index gives \<open>undefined\<close>, and \<open>undefined > 30\<close> is false.
\<close>

definition harmonicEntry :: "int list \<Rightarrow> real \<Rightarrow> real \<Rightarrow> real \<Rightarrow> nat \<Rightarrow> harmonic list" where
  "harmonicEntry a fundamentalFreq sampleRate fftSize n =
     (let harmonicFreq = dbl (fundamentalFreq * real n);
          harmonicBin = \<lfloor>dbl (dbl (harmonicFreq * fftSize) / sampleRate)\<rfloor>
      in if harmonicBin < int (length a) then
           (if 0 \<le> harmonicBin \<and> a ! nat harmonicBin > 30
            then [\<lparr>order = n, frequency = harmonicFreq, amplitude = a ! nat harmonicBin\<rparr>]
            else [])
         else [])"

definition harmonicLoop :: "int list \<Rightarrow> real \<Rightarrow> real \<Rightarrow> real \<Rightarrow> harmonic list" where
  "harmonicLoop a fundamentalFreq sampleRate fftSize =
     concat (map (harmonicEntry a fundamentalFreq sampleRate fftSize) [2, 3, 4])"

definition calculateFrequencyAnalysis :: "int list option \<Rightarrow> real \<Rightarrow> real \<Rightarrow> analysis option" where
  "calculateFrequencyAnalysis freqDataArray sampleRate fftSize =
     (case freqDataArray of
        None \<Rightarrow> None
      | Some a \<Rightarrow>
          if length a = 0 then None
          else
            (let peakBin = snd (peakScan a);
                 peakFreq = (real peakBin * sampleRate) / fftSize;
                 fundamentalBin = snd (fundScan a sampleRate fftSize);
                 fundamentalFreq = dbl (dbl (real fundamentalBin * sampleRate) / fftSize);
                 hs = (if fundamentalFreq > 10
                       then harmonicLoop a fundamentalFreq sampleRate fftSize else [])
             in Some \<lparr>topResonating = peakFreq,
                      fundamental = (if fundamentalFreq > 10 then Some fundamentalFreq else None),
                      harmonics = hs\<rparr>))"

text \<open>
  The local-peak test in the words of the specification: above both neighbours (a boundary
  bin against its one neighbour) and above 50.
\<close>

definition qualifies :: "int list \<Rightarrow> nat \<Rightarrow> bool" where
  "qualifies a i \<longleftrightarrow>
     (i = 0 \<or> a ! i > a ! (i - 1)) \<and> (Suc i = length a \<or> a ! i > a ! (i + 1)) \<and> a ! i > 50"

text \<open>
  The bins that the search for the fundamental visits, by their frequencies: every bin but
  bin 0 whose band, from \<open>j * sampleRate / fftSize\<close> up to
  \<open>(j + 1) * sampleRate / fftSize\<close>, ends at or below 2000 Hz.
\<close>

definition scanned :: "int list \<Rightarrow> real \<Rightarrow> real \<Rightarrow> nat \<Rightarrow> bool" where
  "scanned a sampleRate fftSize j \<longleftrightarrow>
     1 \<le> j \<and> j < length a \<and> real (j + 1) * sampleRate / fftSize \<le> 2000"



section \<open>Frames, recordings and the state of the application\<close>

text \<open>A recorded frame \<open>{t, freq, timeDomain}\<close>.\<close>

record frame =
  t :: real
  freq :: "int list"
  timeDomain :: "int list"

text \<open>
  Values read from a JSON file. An object is the list of its properties, each key once.
\<close>

datatype json =
  JNull
  | JBool bool
  | JNum real
  | JStr string
  | JArr "json list"
  | JObj "(string \<times> json) list"

text \<open>
  A recording made by \<open>handleToggleRecording\<close>. The fields carry the prefix \<open>rec_\<close>: the
  source's names \<open>id\<close>, \<open>sampleRate\<close>, \<open>fftSize\<close>, \<open>frames\<close> are also names of variables here.
\<close>

record recording =
  rec_id :: string
  rec_label :: string
  rec_createdAt :: string
  rec_durationMs :: real
  rec_nyquistHz :: real
  rec_sampleRate :: real
  rec_fftSize :: real
  rec_bufferLength :: real
  rec_frames :: "frame list"

text \<open>
  A recording built by \<open>handleImportFile\<close>, with the same fields (prefix \<open>imp_\<close>). What the
  file gives for \<open>label\<close>, \<open>createdAt\<close>, the fallback of \<open>durationMs\<close> and the elements of
  \<open>frames\<close> is not checked by the source, so these stay JSON values.
\<close>

record imported =
  imp_id :: string
  imp_label :: json
  imp_createdAt :: json
  imp_durationMs :: json
  imp_nyquistHz :: real
  imp_sampleRate :: real
  imp_fftSize :: real
  imp_bufferLength :: real
  imp_frames :: "json list"

datatype entry = Captured recording | Imported imported

text \<open>The state and the refs of the component that the modelled handlers read and write.\<close>

record app =
  isRecordingRef :: bool
  isReplaying :: bool
  useLogScale :: bool
  recordings :: "entry list"
  hoverFreqHz :: "real option"
  recordedFramesRef :: "frame list"
  recordingStartRef :: "real option"
  nyquistRef :: real
  sampleRateRef :: real
  fftSizeRef :: real
  bufferLengthRef :: real

text \<open>Decimal rendering of a number in a template string.\<close>

fun digitChar :: "nat \<Rightarrow> char" where
  "digitChar d =
     (if d = 0 then CHR ''0'' else if d = 1 then CHR ''1'' else if d = 2 then CHR ''2''
      else if d = 3 then CHR ''3'' else if d = 4 then CHR ''4'' else if d = 5 then CHR ''5''
      else if d = 6 then CHR ''6'' else if d = 7 then CHR ''7'' else if d = 8 then CHR ''8''
      else CHR ''9'')"

fun showNat :: "nat \<Rightarrow> string" where
  "showNat n =
     (if n < 10 then [digitChar n]
      else showNat (n div 10) @ [digitChar (n mod 10)])"

declare showNat.simps [simp del]

section \<open>Replay (\<open>drawReplay\<close>)\<close>

text \<open>The search loop of \<open>drawReplay\<close>: the first frame with \<open>t >= elapsed\<close>, if any.\<close>

fun firstAtOrAfter :: "frame list \<Rightarrow> real \<Rightarrow> frame option" where
  "firstAtOrAfter [] elapsed = None"
| "firstAtOrAfter (f # fs) elapsed =
     (if t f \<ge> elapsed then Some f else firstAtOrAfter fs elapsed)"

text \<open>The frame starts as the last one and is replaced by the first hit of the loop.\<close>

definition selectFrame :: "frame list \<Rightarrow> real \<Rightarrow> frame" where
  "selectFrame fs elapsed =
     (case firstAtOrAfter fs elapsed of Some f \<Rightarrow> f | None \<Rightarrow> last fs)"

text \<open>
  One tick of the replay on a non-empty frame list (the effect stops at once on an empty
  one): the frame drawn, and whether the next tick is requested (\<open>True\<close>) or
  \<open>setIsReplaying(false)\<close> is called (\<open>False\<close>). \<open>replaying\<close> is the value of \<open>isReplaying\<close>
  that the effect closed over.
\<close>

definition drawReplay :: "frame list \<Rightarrow> bool \<Rightarrow> real \<Rightarrow> frame \<times> bool" where
  "drawReplay fs replaying elapsed =
     (selectFrame fs elapsed, elapsed \<le> t (last fs) \<and> replaying)"

section \<open>Recording (\<open>handleToggleRecording\<close> and the capture step of \<open>draw\<close>)\<close>

text \<open>
  The capture step of the live \<open>draw\<close>: while recording, the first tick fixes the origin
  and empties the frame list, and every tick appends one frame.
\<close>

definition saveFrame :: "app \<Rightarrow> real \<Rightarrow> int list \<Rightarrow> int list \<Rightarrow> app" where
  "saveFrame st now freqData timeData =
     (if isRecordingRef st then
        (let st1 = (case recordingStartRef st of
                      None \<Rightarrow> st\<lparr>recordingStartRef := Some now, recordedFramesRef := []\<rparr>
                    | Some _ \<Rightarrow> st);
             start = (case recordingStartRef st1 of None \<Rightarrow> now | Some s \<Rightarrow> s)
         in st1\<lparr>recordedFramesRef := recordedFramesRef st1
                   @ [\<lparr>t = now - start, freq = freqData, timeDomain = timeData\<rparr>]\<rparr>)
      else st)"

text \<open>
  \<open>handleToggleRecording\<close>. \<open>createdMs\<close> and \<open>createdTime\<close> are \<open>createdAt.getTime()\<close> and
  \<open>createdAt.toLocaleTimeString()\<close> of the date taken when the recording stops.
\<close>

definition handleToggleRecording :: "app \<Rightarrow> nat \<Rightarrow> string \<Rightarrow> app" where
  "handleToggleRecording st createdMs createdTime =
     (if isReplaying st then st
      else if \<not> isRecordingRef st then
        st\<lparr>recordingStartRef := None, recordedFramesRef := [], isRecordingRef := True\<rparr>
      else
        (let st1 = st\<lparr>isRecordingRef := False\<rparr>;
             fs = recordedFramesRef st1
         in if fs \<noteq> [] then
              (let durationMs = t (last fs);
                   index = length (recordings st1) + 1
               in st1\<lparr>recordings :=
                    Captured \<lparr>rec_id = showNat createdMs @ ''-'' @ showNat index,
                              rec_label = ''Recording '' @ showNat index,
                              rec_createdAt = createdTime,
                              rec_durationMs = durationMs,
                              rec_nyquistHz = nyquistRef st1,
                              rec_sampleRate = sampleRateRef st1,
                              rec_fftSize = fftSizeRef st1,
                              rec_bufferLength = bufferLengthRef st1,
                              rec_frames = fs\<rparr>
                    # recordings st1\<rparr>)
            else st1))"

text \<open>A run of live ticks, each with its clock value and its two arrays.\<close>

fun liveTicks :: "app \<Rightarrow> (real \<times> int list \<times> int list) list \<Rightarrow> app" where
  "liveTicks st [] = st"
| "liveTicks st ((now, freqData, timeData) # rest) =
     liveTicks (saveFrame st now freqData timeData) rest"


text \<open>The frame that a tick at clock value \<open>fst x\<close> appends when the origin is \<open>start\<close>.\<close>

definition mkFrame :: "real \<Rightarrow> real \<times> int list \<times> int list \<Rightarrow> frame" where
  "mkFrame start x = \<lparr>t = fst x - start, freq = fst (snd x), timeDomain = snd (snd x)\<rparr>"

text \<open>The recording that a stop of the recording builds from the state.\<close>

definition newRecording :: "app \<Rightarrow> nat \<Rightarrow> string \<Rightarrow> recording" where
  "newRecording st c s =
     \<lparr>rec_id = showNat c @ ''-'' @ showNat (length (recordings st) + 1),
      rec_label = ''Recording '' @ showNat (length (recordings st) + 1),
      rec_createdAt = s,
      rec_durationMs = t (last (recordedFramesRef st)),
      rec_nyquistHz = nyquistRef st,
      rec_sampleRate = sampleRateRef st,
      rec_fftSize = fftSizeRef st,
      rec_bufferLength = bufferLengthRef st,
      rec_frames = recordedFramesRef st\<rparr>"

text \<open>The state of the component when it is mounted (the initial values of the source).\<close>

definition initialApp :: app where
  "initialApp =
     \<lparr>isRecordingRef = False, isReplaying = False, useLogScale = True, recordings = [],
      hoverFreqHz = None, recordedFramesRef = [], recordingStartRef = None,
      nyquistRef = 20000, sampleRateRef = 44100, fftSizeRef = 2048, bufferLengthRef = 1024\<rparr>"

section \<open>Hover read-outs (\<open>handleSpectrogramHover\<close>, \<open>handleSpectrumHover\<close>)\<close>

text \<open>\<open>x || d\<close> on numbers: the default replaces a zero.\<close>

definition orDefault :: "real \<Rightarrow> real \<Rightarrow> real" where
  "orDefault x d = (if x = 0 then d else x)"

text \<open>
  The canvas is \<open>None\<close> when the ref is empty, and otherwise its height or width in pixels;
  \<open>offsetY\<close> and \<open>offsetX\<close> come from the mouse event.
\<close>

definition handleSpectrogramHover :: "app \<Rightarrow> nat option \<Rightarrow> real \<Rightarrow> app" where
  "handleSpectrogramHover st canvas offsetY =
     (case canvas of
        None \<Rightarrow> st
      | Some canvasHeight \<Rightarrow>
          (let height = (if canvasHeight = 0 then 1 else canvasHeight);
               clampedY = min (max offsetY 0) (real height - 1)
           in if real height - 1 \<le> 0 then st\<lparr>hoverFreqHz := None\<rparr>
              else st\<lparr>hoverFreqHz :=
                     Some (max 5 (min 20000 (yToFreq clampedY height (useLogScale st))))\<rparr>))"

text \<open>\<open>Math.round\<close> is \<open>floor (x + 1/2)\<close>, \<open>Math.ceil\<close> is \<open>ceiling\<close>.\<close>

definition handleSpectrumHover :: "app \<Rightarrow> nat option \<Rightarrow> real \<Rightarrow> app" where
  "handleSpectrumHover st canvas offsetX =
     (case canvas of
        None \<Rightarrow> st
      | Some canvasWidth \<Rightarrow>
          (let width = orDefault (real canvasWidth) 1;
               clampedX = min (max offsetX 0) (width - 1);
               bufferLength = orDefault (bufferLengthRef st) 1024;
               sampleRate = orDefault (sampleRateRef st) 44100;
               fftSize = orDefault (fftSizeRef st) 2048;
               step = real_of_int \<lceil>bufferLength / width\<rceil>;
               pixelIndex = real_of_int \<lfloor>clampedX + 1 / 2\<rfloor>;
               binIndex = min (bufferLength - 1) (pixelIndex * step);
               hz = ((binIndex + 0.5) * sampleRate) / fftSize
           in st\<lparr>hoverFreqHz := Some (max 0 (min 20000 hz))\<rparr>))"

section \<open>Analysis of a replayed frame (\<open>drawReplay\<close>)\<close>



section \<open>Import of recordings (\<open>handleImportFile\<close>)\<close>

text \<open>
  What the import takes from outside the program, for the entry at index \<open>idx\<close>:
  \<open>Date.now()\<close>, the six characters cut from \<open>Math.random().toString(36)\<close>, and
  \<open>new Date().toLocaleTimeString()\<close>. \<open>lengthKey\<close> is the property key that JavaScript makes
  of \<open>frames.length - 1\<close> when \<open>frames\<close> is an object that is not an array, from the value of
  its \<open>length\<close> property (absent: \<open>None\<close>).
\<close>

record env =
  dateNow :: "nat \<Rightarrow> nat"
  randomSuffix :: "nat \<Rightarrow> string"
  localeTime :: "nat \<Rightarrow> string"
  lengthKey :: "json option \<Rightarrow> string"

text \<open>
  Reading a property of a value that is not \<open>null\<close>; \<open>None\<close> is \<open>undefined\<close>. None of the
  names read by the import is a built-in property of a string, number, boolean or array.
\<close>

fun getProp :: "json \<Rightarrow> string \<Rightarrow> json option" where
  "getProp (JObj kv) k = map_of kv k"
| "getProp _ k = None"

fun truthy :: "json option \<Rightarrow> bool" where
  "truthy None = False"
| "truthy (Some JNull) = False"
| "truthy (Some (JBool b)) = b"
| "truthy (Some (JNum x)) = (x \<noteq> 0)"
| "truthy (Some (JStr s)) = (s \<noteq> [])"
| "truthy (Some (JArr xs)) = True"
| "truthy (Some (JObj kv)) = True"

text \<open>\<open>v || d\<close> on a property that may be absent.\<close>

definition jsOr :: "json option \<Rightarrow> json \<Rightarrow> json" where
  "jsOr v d = (case v of None \<Rightarrow> d | Some x \<Rightarrow> if truthy v then x else d)"

text \<open>\<open>typeof v === 'number' && v > 0 ? v : d\<close>.\<close>

definition numOr :: "json option \<Rightarrow> real \<Rightarrow> real" where
  "numOr v d = (case v of Some (JNum x) \<Rightarrow> if x > 0 then x else d | _ \<Rightarrow> d)"

text \<open>\<open>e?.t ?? 0\<close> for an element \<open>e\<close> that may be absent.\<close>

fun tOf :: "json option \<Rightarrow> json" where
  "tOf (Some (JObj kv)) =
     (case map_of kv ''t'' of None \<Rightarrow> JNum 0 | Some JNull \<Rightarrow> JNum 0 | Some v \<Rightarrow> v)"
| "tOf _ = JNum 0"

text \<open>
  \<open>rec.frames?.[rec.frames.length - 1]?.t ?? 0\<close>. The last character of a string has no
  property \<open>t\<close>, and a number or boolean has no \<open>length\<close>.
\<close>

fun lastFrameT :: "env \<Rightarrow> json option \<Rightarrow> json" where
  "lastFrameT e None = JNum 0"
| "lastFrameT e (Some JNull) = JNum 0"
| "lastFrameT e (Some (JArr xs)) = (if xs = [] then JNum 0 else tOf (Some (last xs)))"
| "lastFrameT e (Some (JObj kv)) = tOf (map_of kv (lengthKey e (map_of kv ''length'')))"
| "lastFrameT e (Some (JStr s)) = JNum 0"
| "lastFrameT e (Some (JNum x)) = JNum 0"
| "lastFrameT e (Some (JBool b)) = JNum 0"

text \<open>
  The callback of \<open>parsed.map\<close>. Reading \<open>rec.createdAt\<close> of a \<open>null\<close> entry throws a
  TypeError: \<open>None\<close>.
\<close>

definition importEntry :: "env \<Rightarrow> app \<Rightarrow> nat \<Rightarrow> json \<Rightarrow> imported option" where
  "importEntry e st idx item =
     (if item = JNull then None
      else
        (let createdAt = jsOr (getProp item ''createdAt'') (JStr (localeTime e idx));
             durationMs =
               (case getProp item ''durationMs'' of
                  Some (JNum x) \<Rightarrow>
                    if x > 0 then JNum x else lastFrameT e (getProp item ''frames'')
                | _ \<Rightarrow> lastFrameT e (getProp item ''frames''))
         in Some \<lparr>imp_id = showNat (dateNow e idx) @ ''-'' @ showNat idx @ ''-''
                            @ randomSuffix e idx,
                  imp_label = jsOr (getProp item ''label'')
                                (JStr (''Imported recording '' @ showNat (idx + 1))),
                  imp_createdAt = createdAt,
                  imp_durationMs = durationMs,
                  imp_nyquistHz = numOr (getProp item ''nyquistHz'') (nyquistRef st),
                  imp_sampleRate = numOr (getProp item ''sampleRate'') (sampleRateRef st),
                  imp_fftSize = numOr (getProp item ''fftSize'') (fftSizeRef st),
                  imp_bufferLength = numOr (getProp item ''bufferLength'') (bufferLengthRef st),
                  imp_frames = (case getProp item ''frames'' of
                                  Some (JArr xs) \<Rightarrow> xs | _ \<Rightarrow> [])\<rparr>))"

text \<open>\<open>parsed.map\<close>: the entries in order, and no result at all once the callback throws.\<close>

fun importAll :: "env \<Rightarrow> app \<Rightarrow> nat \<Rightarrow> json list \<Rightarrow> imported list option" where
  "importAll e st idx [] = Some []"
| "importAll e st idx (item # rest) =
     (case importEntry e st idx item of
        None \<Rightarrow> None
      | Some r \<Rightarrow>
          (case importAll e st (idx + 1) rest of
             None \<Rightarrow> None
           | Some rs \<Rightarrow> Some (r # rs)))"

text \<open>
  The \<open>onload\<close> handler, from the result of \<open>JSON.parse\<close> (\<open>None\<close> when it throws). A thrown
  error is caught and logged, and a value that is not an array is refused: the state stays
  as it is.
\<close>

definition handleImportFile :: "env \<Rightarrow> app \<Rightarrow> json option \<Rightarrow> app" where
  "handleImportFile e st parsed =
     (case parsed of
        Some (JArr items) \<Rightarrow>
          (case importAll e st 0 items of
             None \<Rightarrow> st
           | Some rs \<Rightarrow> st\<lparr>recordings := map Imported rs @ recordings st\<rparr>)
      | _ \<Rightarrow> st)"

text \<open>
  An environment for the examples. Its \<open>lengthKey\<close> is a stand-in: no example has an
  object for \<open>frames\<close>.
\<close>

definition sampleEnv :: env where
  "sampleEnv =
     \<lparr>dateNow = (\<lambda>idx. 1700000000000), randomSuffix = (\<lambda>idx. ''k3x9q7''),
      localeTime = (\<lambda>idx. ''10:15:00 AM''), lengthKey = (\<lambda>v. ''NaN'')\<rparr>"

text \<open>The frames field of an entry, when it is an array.\<close>

definition framesArray :: "json \<Rightarrow> json list option" where
  "framesArray item = (case getProp item ''frames'' of Some (JArr xs) \<Rightarrow> Some xs | _ \<Rightarrow> None)"


text \<open>
  The harmonic bin and the emission test in the words of the specification:
  \<open>floor (order * fundamentalFreq * transformSize / sampleRateHz)\<close>, each product and the
  quotient a double, in range and with a magnitude above 30.
\<close>

definition specHarmonicBin :: "nat \<Rightarrow> real \<Rightarrow> real \<Rightarrow> real \<Rightarrow> int" where
  "specHarmonicBin k fundamentalFreq fftSize sampleRate =
     \<lfloor>dbl (dbl (dbl (real k * fundamentalFreq) * fftSize) / sampleRate)\<rfloor>"

definition emits :: "int list \<Rightarrow> real \<Rightarrow> real \<Rightarrow> real \<Rightarrow> nat \<Rightarrow> bool" where
  "emits a f sr n k \<longleftrightarrow>
     0 \<le> specHarmonicBin k f n sr \<and> specHarmonicBin k f n sr < int (length a)
     \<and> a ! nat (specHarmonicBin k f n sr) > 30"

section \<open>Properties of the frequency mapping\<close>

lemma specFrac_range:
  assumes "5 \<le> f" "f \<le> 20000"
  shows "0 \<le> specFrac m f \<and> specFrac m f \<le> 1"
proof (cases m)
  case True
  have d: "0 < log 10 20000 - log 10 (5::real)" by simp
  have a: "log 10 5 \<le> log 10 f" using assms by simp
  have b: "log 10 f \<le> log 10 20000" using assms by simp
  have "0 \<le> (log 10 f - log 10 5) / (log 10 20000 - log 10 5)"
    using a d by simp
  moreover have "(log 10 f - log 10 5) / (log 10 20000 - log 10 5) \<le> 1"
    using b d by simp
  ultimately show ?thesis using True by (simp add: specFrac_def)
next
  case False
  then show ?thesis using assms by (simp add: specFrac_def)
qed

lemma binToY_inband:
  assumes "\<not> (binFreq i sr n < 5 \<or> binFreq i sr n > 20000)"
  shows "binToY i len h m sr n = \<lfloor>specFrac m (binFreq i sr n) * (real h - 1)\<rfloor>"
  using assms by (simp add: binToY_def specFrac_def minFreq_def maxFreq_def Let_def)

lemma binToY_outband:
  assumes "binFreq i sr n < 5 \<or> binFreq i sr n > 20000"
  shows "binToY i len h m sr n = - 1"
  using assms by (auto simp add: binToY_def minFreq_def maxFreq_def Let_def)

lemma yToFreq_lin: "yToFreq y h False = 5 + (1 - (y + 1/2) / (real h - 1)) * 19995"
  by (simp add: yToFreq_def minFreq_def maxFreq_def)

lemma yToFreq_log:
  "yToFreq y h True = 10 powr (log 10 5 + (1 - (y + 1/2) / (real h - 1)) * (log 10 20000 - log 10 5))"
  by (simp add: yToFreq_def minFreq_def maxFreq_def Let_def)

lemma floor_pos_bounds:
  fixes p :: real and D :: real
  assumes "0 < D"
  shows "real_of_int \<lfloor>p * D\<rfloor> / D \<le> p" and "p < (real_of_int \<lfloor>p * D\<rfloor> + 1) / D"
proof -
  have "real_of_int \<lfloor>p * D\<rfloor> \<le> p * D" by simp
  then show "real_of_int \<lfloor>p * D\<rfloor> / D \<le> p" using assms by (simp add: divide_le_eq)
  have "p * D < real_of_int \<lfloor>p * D\<rfloor> + 1" by linarith
  then show "p < (real_of_int \<lfloor>p * D\<rfloor> + 1) / D" using assms by (simp add: less_divide_eq)
qed

lemma unfrac: "W \<noteq> 0 \<Longrightarrow> (a::real) = b + (1 - (1 - (a - b) / W)) * W"
  by (simp add: field_simps)

lemma pos_lt: "0 < W \<Longrightarrow> p < q \<Longrightarrow> b + (1 - q) * W < b + (1 - p) * (W::real)"
  by (simp add: mult_strict_right_mono)

lemma pos_le: "0 < W \<Longrightarrow> p \<le> q \<Longrightarrow> b + (1 - q) * W \<le> b + (1 - p) * (W::real)"
  by (simp add: mult_right_mono)

lemma row_positions:
  fixes D :: real
  assumes D: "0 < D" and y: "y = \<lfloor>p * D\<rfloor>"
  shows "real_of_int y / D \<le> p" "p < (real_of_int y + 1/2 + 1/2) / D"
    "(real_of_int y - 1/2 + 1/2) / D < (real_of_int y + 1/2) / D"
    "(real_of_int y + 1/2) / D < (real_of_int y + 1/2 + 1/2) / D"
    "(real_of_int y - 1/2 + 1/2) / D \<le> p"
proof -
  show a: "real_of_int y / D \<le> p" unfolding y using floor_pos_bounds(1) [OF D] .
  have "p < (real_of_int y + 1) / D" unfolding y using floor_pos_bounds(2) [OF D] .
  moreover have "real_of_int y + 1/2 + 1/2 = real_of_int y + 1" by simp
  ultimately show "p < (real_of_int y + 1/2 + 1/2) / D" by (simp only:)
  show "(real_of_int y - 1/2 + 1/2) / D < (real_of_int y + 1/2) / D"
    using D by (simp add: divide_strict_right_mono)
  show "(real_of_int y + 1/2) / D < (real_of_int y + 1/2 + 1/2) / D"
    using D by (simp add: divide_strict_right_mono)
  show "(real_of_int y - 1/2 + 1/2) / D \<le> p" using a by simp
qed

lemma lin_row:
  assumes "5 \<le> f" "f \<le> 20000" "2 \<le> h"
  defines "y \<equiv> \<lfloor>specFrac False f * (real h - 1)\<rfloor>"
  shows "rowBottomFreq y h False < f" "f \<le> rowTopFreq y h False"
    "rowBottomFreq y h False < yToFreq (real_of_int y) h False"
    "yToFreq (real_of_int y) h False < rowTopFreq y h False"
proof -
  define D where "D = real h - 1"
  define p where "p = specFrac False f"
  have D: "0 < D" using assms by (simp add: D_def)
  have y: "y = \<lfloor>p * D\<rfloor>" by (simp add: y_def p_def D_def)
  have W: "(0::real) < 19995" by simp
  have f: "f = 5 + (1 - p) * 19995" by (simp add: p_def specFrac_def field_simps)
  note rp = row_positions [OF D y]
  have top: "rowTopFreq y h False = 5 + (1 - (real_of_int y - 1/2 + 1/2) / D) * 19995"
    unfolding rowTopFreq_def yToFreq_lin D_def by simp
  have bot: "rowBottomFreq y h False = 5 + (1 - (real_of_int y + 1/2 + 1/2) / D) * 19995"
    unfolding rowBottomFreq_def yToFreq_lin D_def by simp
  have mid: "yToFreq (real_of_int y) h False = 5 + (1 - (real_of_int y + 1/2) / D) * 19995"
    unfolding yToFreq_lin D_def by simp
  show "rowBottomFreq y h False < f"
    unfolding bot by (subst f) (rule pos_lt [OF W rp(2)])
  show "f \<le> rowTopFreq y h False"
    unfolding top by (subst f) (rule pos_le [OF W rp(5)])
  show "rowBottomFreq y h False < yToFreq (real_of_int y) h False"
    unfolding bot mid by (rule pos_lt [OF W rp(4)])
  show "yToFreq (real_of_int y) h False < rowTopFreq y h False"
    unfolding top mid by (rule pos_lt [OF W rp(3)])
qed

lemma log_row:
  assumes "5 \<le> f" "f \<le> 20000" "2 \<le> h"
  defines "y \<equiv> \<lfloor>specFrac True f * (real h - 1)\<rfloor>"
  shows "rowBottomFreq y h True < f" "f \<le> rowTopFreq y h True"
    "rowBottomFreq y h True < yToFreq (real_of_int y) h True"
    "yToFreq (real_of_int y) h True < rowTopFreq y h True"
proof -
  define D where "D = real h - 1"
  define p where "p = specFrac True f"
  define W :: real where "W = log 10 20000 - log 10 5"
  have D: "0 < D" using assms by (simp add: D_def)
  have y: "y = \<lfloor>p * D\<rfloor>" by (simp add: y_def p_def D_def)
  have W: "0 < W" by (simp add: W_def)
  then have Wne: "W \<noteq> 0" by simp
  have fpos: "0 < f" using assms by simp
  have lf: "log 10 f = log 10 5 + (1 - p) * W"
    unfolding p_def specFrac_def W_def [symmetric] using unfrac [OF Wne] by simp
  have "10 powr (log 10 f) = f" using fpos by simp
  then have f: "f = 10 powr (log 10 5 + (1 - p) * W)" using lf by simp
  note rp = row_positions [OF D y]
  have top: "rowTopFreq y h True = 10 powr (log 10 5 + (1 - (real_of_int y - 1/2 + 1/2) / D) * W)"
    unfolding rowTopFreq_def yToFreq_log D_def W_def by simp
  have bot: "rowBottomFreq y h True = 10 powr (log 10 5 + (1 - (real_of_int y + 1/2 + 1/2) / D) * W)"
    unfolding rowBottomFreq_def yToFreq_log D_def W_def by simp
  have mid: "yToFreq (real_of_int y) h True = 10 powr (log 10 5 + (1 - (real_of_int y + 1/2) / D) * W)"
    unfolding yToFreq_log D_def W_def by simp
  have mono: "a < b \<Longrightarrow> 10 powr (a::real) < 10 powr b" for a b by simp
  have mono': "a \<le> b \<Longrightarrow> 10 powr (a::real) \<le> 10 powr b" for a b by simp
  show "rowBottomFreq y h True < f"
    unfolding bot by (subst f) (rule mono [OF pos_lt [OF W rp(2)]])
  show "f \<le> rowTopFreq y h True"
    unfolding top by (subst f) (rule mono' [OF pos_le [OF W rp(5)]])
  show "rowBottomFreq y h True < yToFreq (real_of_int y) h True"
    unfolding bot mid by (rule mono [OF pos_lt [OF W rp(4)]])
  show "yToFreq (real_of_int y) h True < rowTopFreq y h True"
    unfolding top mid by (rule mono [OF pos_lt [OF W rp(3)]])
qed

text \<open>
  C3. \<open>binToY\<close> computes the bin frequency \<open>binIndex * sampleRate / fftSize\<close>, returns the
  out-of-band value \<open>-1\<close> when that frequency is below 5 or above 20000 (so for bin 0 and
  for every bin above 20000 Hz), and otherwise returns \<open>floor (frac * (height - 1))\<close> with
  the fraction of the specification; on a canvas of at least one row the in-band result
  is a row number, never \<open>-1\<close>, so \<open>-1\<close> is returned exactly for the out-of-band bins.
\<close>

theorem binToY_contract:
  assumes "0 < fftSize" and "1 \<le> height"
  shows "binToY i len height m sampleRate fftSize =
           (if real i * sampleRate / fftSize < 5 \<or> real i * sampleRate / fftSize > 20000
            then - 1
            else \<lfloor>specFrac m (real i * sampleRate / fftSize) * (real height - 1)\<rfloor>)
         \<and> (binToY i len height m sampleRate fftSize = - 1
              \<longleftrightarrow> real i * sampleRate / fftSize < 5 \<or> real i * sampleRate / fftSize > 20000)
         \<and> binToY 0 len height m sampleRate fftSize = - 1"
proof -
  let ?f = "real i * sampleRate / fftSize"
  have f: "binFreq i sampleRate fftSize = ?f" by (simp add: binFreq_def)
  have one: "binToY i len height m sampleRate fftSize =
           (if ?f < 5 \<or> ?f > 20000 then - 1
            else \<lfloor>specFrac m ?f * (real height - 1)\<rfloor>)"
    using binToY_inband [of i sampleRate fftSize len height m]
      binToY_outband [of i sampleRate fftSize len height m] f by auto
  have two: "binToY i len height m sampleRate fftSize \<noteq> - 1"
    if "\<not> (?f < 5 \<or> ?f > 20000)"
  proof -
    have "0 \<le> specFrac m ?f" using specFrac_range [of ?f m] that by simp
    moreover have "0 \<le> real height - 1" using assms by simp
    ultimately have "0 \<le> specFrac m ?f * (real height - 1)" by simp
    then have fl: "0 \<le> \<lfloor>specFrac m ?f * (real height - 1)\<rfloor>" by simp
    have eq: "binToY i len height m sampleRate fftSize = \<lfloor>specFrac m ?f * (real height - 1)\<rfloor>"
      using one that by simp
    show ?thesis using fl eq by linarith
  qed
  have three: "binToY 0 len height m sampleRate fftSize = - 1"
    by (rule binToY_outband) (simp add: binFreq_def)
  show ?thesis using one two three by auto
qed

theorem binToY_contract_witness:
  "(0::real) < 2048 \<and> (1::nat) \<le> 320
   \<and> binToY 10 1024 320 True 44100 2048
       = \<lfloor>specFrac True (real 10 * 44100 / 2048) * (real 320 - 1)\<rfloor>
   \<and> binToY 1000 1024 320 True 44100 2048 = - 1
   \<and> binToY 0 1024 320 True 44100 2048 = - 1"
  using binToY_contract [where fftSize = 2048 and height = 320 and i = 10 and len = 1024
      and m = True and sampleRate = 44100]
    binToY_contract [where fftSize = 2048 and height = 320 and i = 1000 and len = 1024
      and m = True and sampleRate = 44100]
  by simp

text \<open>
  C1. Round trip of the coordinate mapping. For a bin whose frequency lies in 5 .. 20000 Hz
  (so that \<open>binToY\<close> does not return \<open>-1\<close>), on a canvas of at least two rows and in both
  scale modes: the bin's true frequency lies in the frequency interval of the row that
  \<open>binToY\<close> returns, \<open>yToFreq\<close> of that row lies in the same interval, and so the two
  differ by less than the frequency span of that one pixel row.
\<close>

theorem roundtrip_within_row:
  assumes "5 \<le> real i * sampleRate / fftSize" and "real i * sampleRate / fftSize \<le> 20000"
    and "2 \<le> height"
  shows "binToY i len height m sampleRate fftSize \<noteq> - 1
    \<and> rowBottomFreq (binToY i len height m sampleRate fftSize) height m
          < real i * sampleRate / fftSize
    \<and> real i * sampleRate / fftSize
          \<le> rowTopFreq (binToY i len height m sampleRate fftSize) height m
    \<and> rowBottomFreq (binToY i len height m sampleRate fftSize) height m
          < yToFreq (real_of_int (binToY i len height m sampleRate fftSize)) height m
    \<and> yToFreq (real_of_int (binToY i len height m sampleRate fftSize)) height m
          < rowTopFreq (binToY i len height m sampleRate fftSize) height m
    \<and> \<bar>yToFreq (real_of_int (binToY i len height m sampleRate fftSize)) height m
          - real i * sampleRate / fftSize\<bar>
          < rowSpan (binToY i len height m sampleRate fftSize) height m"
proof -
  define f where "f = real i * sampleRate / fftSize"
  define y where "y = binToY i len height m sampleRate fftSize"
  have f: "5 \<le> f" "f \<le> 20000" using assms by (simp_all add: f_def)
  have bf: "binFreq i sampleRate fftSize = f" by (simp add: binFreq_def f_def)
  have yeq: "y = \<lfloor>specFrac m f * (real height - 1)\<rfloor>"
    unfolding y_def using binToY_inband [of i sampleRate fftSize len height m] f bf by simp
  have "0 \<le> specFrac m f" using specFrac_range [of f m] f by simp
  moreover have "0 \<le> real height - 1" using assms by simp
  ultimately have "0 \<le> specFrac m f * (real height - 1)" by simp
  then have "0 \<le> \<lfloor>specFrac m f * (real height - 1)\<rfloor>" by simp
  then have ynn: "y \<noteq> - 1" using yeq by linarith
  have rows: "rowBottomFreq y height m < f \<and> f \<le> rowTopFreq y height m
      \<and> rowBottomFreq y height m < yToFreq (real_of_int y) height m
      \<and> yToFreq (real_of_int y) height m < rowTopFreq y height m"
  proof (cases m)
    case True
    then have mt: "m = True" by simp
    show ?thesis unfolding yeq mt
      using log_row [OF f assms(3)] by simp
  next
    case False
    then have mf: "m = False" by simp
    show ?thesis unfolding yeq mf
      using lin_row [OF f assms(3)] by simp
  qed
  then have "\<bar>yToFreq (real_of_int y) height m - f\<bar> < rowSpan y height m"
    unfolding rowSpan_def by linarith
  then show ?thesis using ynn rows unfolding y_def f_def by simp
qed

theorem roundtrip_within_row_witness:
  "(5::real) \<le> real 10 * 44100 / 2048 \<and> real 10 * 44100 / 2048 \<le> (20000::real)
   \<and> (2::nat) \<le> 320
   \<and> \<bar>yToFreq (real_of_int (binToY 10 1024 320 True 44100 2048)) 320 True
          - real 10 * 44100 / 2048\<bar>
          < rowSpan (binToY 10 1024 320 True 44100 2048) 320 True
   \<and> \<bar>yToFreq (real_of_int (binToY 10 1024 320 False 44100 2048)) 320 False
          - real 10 * 44100 / 2048\<bar>
          < rowSpan (binToY 10 1024 320 False 44100 2048) 320 False"
  using roundtrip_within_row [where i = 10 and sampleRate = 44100 and fftSize = 2048
      and height = 320 and m = True and len = 1024]
    roundtrip_within_row [where i = 10 and sampleRate = 44100 and fftSize = 2048
      and height = 320 and m = False and len = 1024]
  by simp

section \<open>Properties of the spectral analysis\<close>

lemma roundEven_int: "roundEven (real_of_int m) = m"
  by (simp add: roundEven_def)

lemma dbl_zero: "dbl 0 = 0"
  by (simp add: dbl_def)

lemma dbl_at:
  assumes "2 powr real_of_int k \<le> \<bar>x\<bar>" and "\<bar>x\<bar> < 2 powr (real_of_int k + 1)"
  shows "dbl x = real_of_int (roundEven (x / 2 powr real_of_int (k - 52)))
                   * 2 powr real_of_int (k - 52)"
proof -
  have pos: "0 < \<bar>x\<bar>" using assms(1) powr_gt_zero [of 2 "real_of_int k"] by linarith
  then have ne: "x \<noteq> 0" by simp
  have "\<lfloor>log 2 \<bar>x\<bar>\<rfloor> = k"
    using floor_log_eq_powr_iff [of "\<bar>x\<bar>" 2 k] pos assms by simp
  then show ?thesis using ne by (simp add: dbl_def Let_def)
qed

lemma dbl_exact:
  assumes x: "x = real_of_int m * 2 powr real_of_int j" and m: "\<bar>m\<bar> < 2 ^ 53"
  shows "dbl x = x"
proof (cases "x = 0")
  case True
  then show ?thesis by (simp add: dbl_zero)
next
  case False
  then have mne: "m \<noteq> 0" using x by auto
  define k where "k = \<lfloor>log 2 \<bar>x\<bar>\<rfloor>"
  have pos: "0 < \<bar>x\<bar>" using False by simp
  have kb: "2 powr real_of_int k \<le> \<bar>x\<bar>"
    using floor_log_eq_powr_iff [of "\<bar>x\<bar>" 2 k] pos by (simp add: k_def)
  have ax: "\<bar>x\<bar> = real_of_int \<bar>m\<bar> * 2 powr real_of_int j"
    unfolding x by (simp add: abs_mult)
  have "real_of_int \<bar>m\<bar> < 2 ^ 53" using m by (metis of_int_less_numeral_power_cancel_iff)
  then have "real_of_int \<bar>m\<bar> < 2 powr 53" by simp
  then have "\<bar>x\<bar> < 2 powr 53 * 2 powr real_of_int j"
    unfolding ax by (simp add: mult_strict_right_mono)
  then have "\<bar>x\<bar> < 2 powr (53 + real_of_int j)" by (simp add: powr_add)
  then have "2 powr real_of_int k < 2 powr (53 + real_of_int j)" using kb by linarith
  then have "real_of_int k < 53 + real_of_int j" by simp
  then have kj: "k - 52 \<le> j" by linarith
  define d where "d = nat (j - (k - 52))"
  have jd: "real_of_int j = real_of_int (k - 52) + real d" using kj by (simp add: d_def)
  have p: "2 powr real_of_int j = 2 powr real_of_int (k - 52) * 2 ^ d"
    unfolding jd by (simp add: powr_add powr_realpow)
  have e0: "(2::real) powr real_of_int (k - 52) \<noteq> 0" by simp
  have q: "x / 2 powr real_of_int (k - 52) = real_of_int (m * 2 ^ d)"
    unfolding x p using e0 by simp
  have "dbl x = real_of_int (roundEven (x / 2 powr real_of_int (k - 52)))
                   * 2 powr real_of_int (k - 52)"
    using False by (simp add: dbl_def Let_def k_def)
  also have "\<dots> = real_of_int (m * 2 ^ d) * 2 powr real_of_int (k - 52)"
    unfolding q roundEven_int by simp
  also have "\<dots> = x" unfolding x p by simp
  finally show ?thesis .
qed

lemma dbl_nat: "m < 2 ^ 53 \<Longrightarrow> dbl (real m) = real m"
  using dbl_exact [of "real m" "int m" 0] by simp

lemma dbl_dyadic: "m < 2 ^ 53 \<Longrightarrow> dbl (real m / 2 ^ e) = real m / 2 ^ e"
proof -
  assume m: "m < 2 ^ 53"
  have "real m / 2 ^ e = real_of_int (int m) * 2 powr real_of_int (- int e)"
    by (simp add: powr_minus_divide powr_realpow)
  moreover have "\<bar>int m\<bar> < 2 ^ 53" using m by simp
  ultimately show ?thesis using dbl_exact by blast
qed

lemma dbl_at_num:
  assumes "2 ^ k \<le> \<bar>x\<bar>" and "\<bar>x\<bar> < 2 ^ Suc k" and "k \<le> 52"
  shows "dbl x = real_of_int (roundEven (x * 2 ^ (52 - k))) / 2 ^ (52 - k)"
proof -
  have k1: "real_of_int (int k) = real k" by simp
  have k2: "real_of_int (int k) + 1 = real (Suc k)" by simp
  have a: "2 powr real_of_int (int k) \<le> \<bar>x\<bar>"
    unfolding k1 using assms(1) by (simp only: powr_realpow zero_less_numeral)
  have b: "\<bar>x\<bar> < 2 powr (real_of_int (int k) + 1)"
    unfolding k2 using assms(2) by (simp only: powr_realpow zero_less_numeral)
  have k3: "real_of_int (int k - 52) = - real (52 - k)" using assms(3) by simp
  have c: "(2::real) powr real_of_int (int k - 52) = 1 / 2 ^ (52 - k)"
    unfolding k3 by (simp only: powr_minus_divide powr_realpow zero_less_numeral)
  have "dbl x = real_of_int (roundEven (x / (1 / 2 ^ (52 - k)))) * (1 / 2 ^ (52 - k))"
    using dbl_at [OF a b] unfolding c .
  then show ?thesis by (simp only: divide_divide_eq_right times_divide_eq_right mult_1 mult_1_right div_by_1)
qed

lemma peakScan_inv:
  "n \<le> length a \<Longrightarrow> foldl (peakStep a) (0, 0) [0..<n] = (mv, pb) \<Longrightarrow>
     0 \<le> mv \<and> (\<forall>j<n. a ! j \<le> mv)
     \<and> (if mv = 0 then pb = 0 else pb < n \<and> a ! pb = mv \<and> (\<forall>j<pb. a ! j < mv))"
proof (induction n arbitrary: mv pb)
  case 0
  then show ?case by simp
next
  case (Suc n)
  obtain mv0 pb0 where s0: "foldl (peakStep a) (0, 0) [0..<n] = (mv0, pb0)"
    by (cases "foldl (peakStep a) (0, 0) [0..<n]") auto
  have le: "n \<le> length a" using Suc.prems by simp
  note ih = Suc.IH [OF le s0]
  have step: "peakStep a (mv0, pb0) n = (mv, pb)" using Suc.prems(2) s0 by simp
  show ?case
  proof (cases "a ! n > mv0")
    case True
    then have e: "mv = a ! n" "pb = n" using step by auto
    have "\<forall>j<Suc n. a ! j \<le> mv"
      using ih True e by (auto simp: less_Suc_eq)
    moreover have "\<forall>j<n. a ! j < mv" using ih True e by force
    moreover have "0 < mv" using ih True e by simp
    ultimately show ?thesis using e by auto
  next
    case False
    then have e: "mv = mv0" "pb = pb0" using step by auto
    have "\<forall>j<Suc n. a ! j \<le> mv"
      using ih False e by (auto simp: less_Suc_eq)
    then show ?thesis using ih e by (auto split: if_splits)
  qed
qed

lemma peakScan_first_max:
  assumes "a \<noteq> []" and "\<forall>v \<in> set a. 0 \<le> v"
  shows "snd (peakScan a) < length a"
    and "\<forall>j<length a. a ! j \<le> a ! snd (peakScan a)"
    and "\<forall>j<snd (peakScan a). a ! j < a ! snd (peakScan a)"
proof -
  obtain mv pb where s: "peakScan a = (mv, pb)" by (cases "peakScan a") auto
  then have f: "foldl (peakStep a) (0, 0) [0..<length a] = (mv, pb)" by (simp add: peakScan_def)
  note inv = peakScan_inv [OF le_refl f]
  have len: "0 < length a" using assms by simp
  have nn: "\<forall>j<length a. 0 \<le> a ! j" using assms by simp
  show "snd (peakScan a) < length a" using inv len s by (auto split: if_splits)
  show "\<forall>j<length a. a ! j \<le> a ! snd (peakScan a)"
  proof (cases "mv = 0")
    case True
    then have "pb = 0" using inv by simp
    moreover have "\<forall>j<length a. a ! j = 0" using inv nn True by force
    ultimately show ?thesis using s len by simp
  next
    case False
    then show ?thesis using inv s by simp
  qed
  show "\<forall>j<snd (peakScan a). a ! j < a ! snd (peakScan a)"
    using inv s by (auto split: if_splits)
qed

lemma peakScan_zero:
  assumes "\<forall>v \<in> set a. v = 0"
  shows "snd (peakScan a) = 0"
proof -
  obtain mv pb where s: "peakScan a = (mv, pb)" by (cases "peakScan a") auto
  then have f: "foldl (peakStep a) (0, 0) [0..<length a] = (mv, pb)" by (simp add: peakScan_def)
  note inv = peakScan_inv [OF le_refl f]
  have "mv = 0"
  proof (rule ccontr)
    assume "mv \<noteq> 0"
    then have "pb < length a" "a ! pb = mv" using inv by auto
    then show False using assms \<open>mv \<noteq> 0\<close> by auto
  qed
  then show ?thesis using inv s by simp
qed


lemma fundStep_qualifies:
  assumes "1 \<le> i" "i < length a"
  shows "fundStep a (fv, fb) i = (if a ! i > fv \<and> qualifies a i then (a ! i, i) else (fv, fb))"
proof -
  have "(int i = int (length a) - 1) = (Suc i = length a)" by auto
  then show ?thesis using assms by (auto simp add: qualifies_def Let_def)
qed

lemma fundScan_inv:
  "n \<le> length a \<Longrightarrow> foldl (fundStep a) (0, 0) [1..<n] = (fv, fb) \<Longrightarrow>
     (\<forall>j. 1 \<le> j \<and> j < n \<and> qualifies a j \<longrightarrow> a ! j \<le> fv)
     \<and> (if fb = 0 then fv = 0 \<and> (\<forall>j. 1 \<le> j \<and> j < n \<longrightarrow> \<not> qualifies a j)
         else 1 \<le> fb \<and> fb < n \<and> qualifies a fb \<and> fv = a ! fb
              \<and> (\<forall>j. 1 \<le> j \<and> j < fb \<and> qualifies a j \<longrightarrow> a ! j < fv))"
proof (induction n arbitrary: fv fb)
  case 0
  then show ?case by simp
next
  case (Suc n)
  show ?case
  proof (cases "n = 0")
    case True
    then show ?thesis using Suc.prems by simp
  next
    case False
    then have n1: "1 \<le> n" by simp
    have nlt: "n < length a" using Suc.prems by simp
    obtain fv0 fb0 where s0: "foldl (fundStep a) (0, 0) [1..<n] = (fv0, fb0)"
      by (cases "foldl (fundStep a) (0, 0) [1..<n]") auto
    have le: "n \<le> length a" using Suc.prems by simp
    note ih = Suc.IH [OF le s0]
    have "[1..<Suc n] = [1..<n] @ [n]" using n1 by simp
    then have step: "fundStep a (fv0, fb0) n = (fv, fb)" using Suc.prems(2) s0 by simp
    have q50: "qualifies a n \<Longrightarrow> 50 < a ! n" by (simp add: qualifies_def)
    show ?thesis
    proof (cases "a ! n > fv0 \<and> qualifies a n")
      case True
      then have e: "fv = a ! n" "fb = n"
        using step fundStep_qualifies [OF n1 nlt, of fv0 fb0] by auto
      have a: "\<forall>j. 1 \<le> j \<and> j < Suc n \<and> qualifies a j \<longrightarrow> a ! j \<le> fv"
        using ih True e by (auto simp: less_Suc_eq)
      have b: "\<forall>j. 1 \<le> j \<and> j < n \<and> qualifies a j \<longrightarrow> a ! j < fv"
        using ih True e by force
      show ?thesis using a b e n1 True by simp
    next
      case False
      then have e: "fv = fv0" "fb = fb0"
        using step fundStep_qualifies [OF n1 nlt, of fv0 fb0] by auto
      show ?thesis
      proof (cases "qualifies a n")
        case q: True
        then have le': "a ! n \<le> fv0" using False by simp
        have fbne: "fb0 \<noteq> 0"
        proof
          assume "fb0 = 0"
          then have "fv0 = 0" using ih by simp
          then show False using le' q50 [OF q] by simp
        qed
        have a: "\<forall>j. 1 \<le> j \<and> j < Suc n \<and> qualifies a j \<longrightarrow> a ! j \<le> fv"
          using ih le' e by (auto simp: less_Suc_eq)
        show ?thesis using a ih e fbne by auto
      next
        case nq: False
        have a: "\<forall>j. 1 \<le> j \<and> j < Suc n \<and> qualifies a j \<longrightarrow> a ! j \<le> fv"
          using ih nq e by (auto simp: less_Suc_eq)
        have b: "fb0 = 0 \<Longrightarrow> (\<forall>j. 1 \<le> j \<and> j < Suc n \<longrightarrow> \<not> qualifies a j)"
          using ih nq by (auto simp: less_Suc_eq)
        show ?thesis using a b ih e by (auto split: if_splits)
      qed
    qed
  qed
qed

lemma fundUpper_le: "fundUpper a sr n \<le> length a"
  by (simp add: fundUpper_def)

lemma fundScan_spec:
  fixes a sr n
  defines "fb \<equiv> snd (fundScan a sr n)"
  defines "U \<equiv> fundUpper a sr n"
  shows "(\<forall>j. 1 \<le> j \<and> j < U \<longrightarrow> \<not> qualifies a j) \<Longrightarrow> fb = 0"
    and "(\<exists>j. 1 \<le> j \<and> j < U \<and> qualifies a j) \<Longrightarrow>
           1 \<le> fb \<and> fb < U \<and> qualifies a fb
           \<and> (\<forall>j. 1 \<le> j \<and> j < U \<and> qualifies a j \<longrightarrow> a ! j \<le> a ! fb)
           \<and> (\<forall>j. 1 \<le> j \<and> j < fb \<and> qualifies a j \<longrightarrow> a ! j < a ! fb)"
proof -
  obtain fv fb' where s: "fundScan a sr n = (fv, fb')" by (cases "fundScan a sr n") auto
  then have f: "foldl (fundStep a) (0, 0) [1..<U] = (fv, fb')"
    by (simp add: fundScan_def U_def)
  have fb: "fb = fb'" using s by (simp add: fb_def)
  have le: "U \<le> length a" unfolding U_def by (rule fundUpper_le)
  note inv = fundScan_inv [OF le f]
  show "(\<forall>j. 1 \<le> j \<and> j < U \<longrightarrow> \<not> qualifies a j) \<Longrightarrow> fb = 0"
    using inv fb by (auto split: if_splits)
  show "(\<exists>j. 1 \<le> j \<and> j < U \<and> qualifies a j) \<Longrightarrow>
           1 \<le> fb \<and> fb < U \<and> qualifies a fb
           \<and> (\<forall>j. 1 \<le> j \<and> j < U \<and> qualifies a j \<longrightarrow> a ! j \<le> a ! fb)
           \<and> (\<forall>j. 1 \<le> j \<and> j < fb \<and> qualifies a j \<longrightarrow> a ! j < a ! fb)"
    using inv fb by (auto split: if_splits)
qed


lemma analysis_Some:
  assumes "a \<noteq> []"
  shows "calculateFrequencyAnalysis (Some a) sr n =
     Some \<lparr>topResonating = real (snd (peakScan a)) * sr / n,
           fundamental = (if dbl (dbl (real (snd (fundScan a sr n)) * sr) / n) > 10
                          then Some (dbl (dbl (real (snd (fundScan a sr n)) * sr) / n)) else None),
           harmonics = (if dbl (dbl (real (snd (fundScan a sr n)) * sr) / n) > 10
                        then harmonicLoop a (dbl (dbl (real (snd (fundScan a sr n)) * sr) / n)) sr n
                        else [])\<rparr>"
  using assms by (simp add: calculateFrequencyAnalysis_def Let_def)

lemma zero_not_qualifies:
  assumes "\<forall>v \<in> set a. v = 0" "j < length a"
  shows "\<not> qualifies a j"
proof -
  have "a ! j = 0" using assms by simp
  then show ?thesis by (simp add: qualifies_def)
qed

lemma fundScan_zero:
  assumes "\<forall>v \<in> set a. v = 0"
  shows "snd (fundScan a sr n) = 0"
proof (rule fundScan_spec(1))
  show "\<forall>j. 1 \<le> j \<and> j < fundUpper a sr n \<longrightarrow> \<not> qualifies a j"
    using zero_not_qualifies [OF assms] fundUpper_le [of a sr n] by auto
qed

lemma binZero_freq: "dbl (dbl (real (0::nat) * sr) / n) = 0"
  by (simp add: dbl_zero)


lemma scanned_iff:
  assumes "0 < sr" "0 < n"
  shows "scanned a sr n j \<longleftrightarrow> 1 \<le> j \<and> j < fundUpper a sr n"
proof -
  have "(int j < \<lfloor>2000 * n / sr\<rfloor>) = (real (j + 1) * sr / n \<le> 2000)"
  proof -
    have "(int j < \<lfloor>2000 * n / sr\<rfloor>) = (int j + 1 \<le> \<lfloor>2000 * n / sr\<rfloor>)" by linarith
    also have "\<dots> = (real_of_int (int j + 1) \<le> 2000 * n / sr)" by (simp only: le_floor_iff)
    also have "\<dots> = (real (j + 1) \<le> 2000 * n / sr)" by (simp add: add.commute)
    also have "\<dots> = (real (j + 1) * sr \<le> 2000 * n)"
      using assms(1) by (simp only: pos_le_divide_eq)
    also have "\<dots> = (real (j + 1) * sr / n \<le> 2000)"
      using assms(2) by (simp only: pos_divide_le_eq)
    finally show ?thesis .
  qed
  then show ?thesis by (auto simp add: scanned_def fundUpper_def lowFreqLimit_def)
qed

lemma roundEven_err: "\<bar>real_of_int (roundEven y) - y\<bar> \<le> 1 / 2"
proof -
  have "real_of_int \<lfloor>y\<rfloor> \<le> y" "y < real_of_int \<lfloor>y\<rfloor> + 1" by linarith+
  then show ?thesis by (auto simp add: roundEven_def Let_def)
qed

lemma dbl_err:
  assumes "x \<noteq> 0"
  shows "\<bar>dbl x - x\<bar> \<le> \<bar>x\<bar> / 2 ^ 53"
proof -
  define k where "k = \<lfloor>log 2 \<bar>x\<bar>\<rfloor>"
  define u :: real where "u = 2 powr real_of_int (k - 52)"
  have pos: "0 < \<bar>x\<bar>" using assms by simp
  have u0: "0 < u" by (simp add: u_def)
  have kb: "2 powr real_of_int k \<le> \<bar>x\<bar>"
    using floor_log_eq_powr_iff [of "\<bar>x\<bar>" 2 k] pos by (simp add: k_def)
  have d: "dbl x = real_of_int (roundEven (x / u)) * u"
    using assms by (simp add: dbl_def Let_def k_def u_def)
  have "dbl x - x = (real_of_int (roundEven (x / u)) - x / u) * u"
    unfolding d using u0 by (simp add: algebra_simps)
  then have "\<bar>dbl x - x\<bar> = \<bar>real_of_int (roundEven (x / u)) - x / u\<bar> * u"
    using u0 by (simp add: abs_mult)
  also have "\<dots> \<le> 1 / 2 * u"
    using roundEven_err [of "x / u"] u0 by (intro mult_right_mono) simp_all
  finally have e: "\<bar>dbl x - x\<bar> \<le> u / 2" by simp
  have "real_of_int (k - 52) = real_of_int k - 52" by simp
  then have "u = 2 powr real_of_int k / 2 powr 52" unfolding u_def by (simp only: powr_diff)
  then have "u = 2 powr real_of_int k / 2 ^ 52" by simp
  then have "u / 2 = 2 powr real_of_int k / 2 ^ 53" by simp
  also have "\<dots> \<le> \<bar>x\<bar> / 2 ^ 53" using kb by (simp add: divide_right_mono)
  finally show ?thesis using e by linarith
qed

lemma floor_dbl_quot:
  fixes P S :: nat
  assumes S: "0 < S" and P: "P < 2 ^ 53"
  shows "\<lfloor>dbl (real P / real S)\<rfloor> = \<lfloor>real P / real S\<rfloor>"
proof (cases "S dvd P")
  case True
  then obtain c where c: "P = S * c" by (elim dvdE)
  have q: "real P / real S = real c" using S unfolding c by simp
  have "c \<le> P" using S unfolding c by simp
  then have "c < 2 ^ 53" using P by linarith
  then have "dbl (real c) = real c" by (rule dbl_nat)
  then show ?thesis unfolding q by simp
next
  case False
  define k where "k = P div S"
  define m where "m = P mod S"
  define q where "q = real P / real S"
  have m0: "0 < m" using False unfolding m_def by (simp add: dvd_eq_mod_eq_0)
  have mS: "m < S" unfolding m_def using S by simp
  have Pk: "P = k * S + m" unfolding k_def m_def by simp
  have rS: "0 < real S" using S by simp
  have qk: "q = real k + real m / real S" unfolding q_def Pk using rS by (simp add: field_simps)
  have "1 \<le> real m" using m0 by simp
  then have lo: "real k + 1 / real S \<le> q" unfolding qk using rS by (simp add: field_simps)
  have "real m \<le> real S - 1" using mS by linarith
  then have "real m / real S \<le> (real S - 1) / real S" using rS by (simp add: divide_right_mono)
  also have "\<dots> = 1 - 1 / real S" using rS by (simp add: field_simps)
  finally have hi: "q \<le> real k + 1 - 1 / real S" unfolding qk by simp
  have iS: "0 < 1 / real S" using rS by simp
  have qpos: "0 < q" using lo iS of_nat_0_le_iff [of k, where ?'a = real] by linarith
  have "real P < 2 ^ 53" using P by (metis of_nat_less_numeral_power_cancel_iff)
  then have "q / 2 ^ 53 < 1 / real S" unfolding q_def using rS by (simp add: field_simps)
  moreover have "\<bar>dbl q - q\<bar> \<le> \<bar>q\<bar> / 2 ^ 53" using qpos by (intro dbl_err) simp
  ultimately have err: "\<bar>dbl q - q\<bar> < 1 / real S" using qpos by simp
  have a: "real k < dbl q" using err lo by linarith
  have b: "dbl q < real k + 1" using err hi by linarith
  have f1: "\<lfloor>dbl q\<rfloor> = int k" using a b by linarith
  have "0 < 1 / real S" using rS by simp
  then have "real k \<le> q" "q < real k + 1" using lo hi by linarith+
  then have f2: "\<lfloor>q\<rfloor> = int k" by linarith
  show ?thesis using f1 f2 unfolding q_def by simp
qed

lemma lowFreqLimit_doubles:
  fixes N S :: nat
  assumes "fftSize = real N" and "sampleRate = real S" and "0 < S" and "2000 * N < 2 ^ 53"
  shows "\<lfloor>dbl (dbl (2000 * fftSize) / sampleRate)\<rfloor> = lowFreqLimit sampleRate fftSize"
proof -
  have "dbl (real (2000 * N)) = real (2000 * N)" using assms(4) by (rule dbl_nat)
  then have d: "dbl (2000 * real N) = real (2000 * N)" by simp
  have "\<lfloor>dbl (real (2000 * N) / real S)\<rfloor> = \<lfloor>real (2000 * N) / real S\<rfloor>"
    using assms(3,4) by (rule floor_dbl_quot)
  then show ?thesis unfolding lowFreqLimit_def assms(1,2) d by simp
qed

text \<open>
  C4. Dominant frequency. For a non-empty magnitude array (values not negative) the analyzer
  returns a summary, with no error, whose dominant frequency is \<open>b * sampleRate / fftSize\<close>
  for the bin \<open>b\<close> of the maximum magnitude, the first such bin by ascending index. When all
  magnitudes are zero the dominant frequency is that of bin 0 (0 Hz), the fundamental is
  absent and the list of harmonics is empty.
\<close>


theorem dominant_frequency:
  assumes "a \<noteq> []" and "\<forall>v \<in> set a. 0 \<le> v" and "0 < sampleRate" and "0 < fftSize"
  shows "\<exists>r. calculateFrequencyAnalysis (Some a) sampleRate fftSize = Some r
     \<and> (\<exists>b<length a. topResonating r = real b * sampleRate / fftSize
            \<and> (\<forall>j<length a. a ! j \<le> a ! b) \<and> (\<forall>j<b. a ! j < a ! b))
     \<and> ((\<forall>v \<in> set a. v = 0) \<longrightarrow>
            topResonating r = 0 \<and> fundamental r = None \<and> harmonics r = [])"
proof -
  define ff where
    "ff = dbl (dbl (real (snd (fundScan a sampleRate fftSize)) * sampleRate) / fftSize)"
  let ?r = "\<lparr>topResonating = real (snd (peakScan a)) * sampleRate / fftSize,
           fundamental = (if ff > 10 then Some ff else None),
           harmonics = (if ff > 10 then harmonicLoop a ff sampleRate fftSize else [])\<rparr>"
  have r: "calculateFrequencyAnalysis (Some a) sampleRate fftSize = Some ?r"
    unfolding ff_def by (rule analysis_Some [OF assms(1)])
  note fm = peakScan_first_max [OF assms(1,2)]
  have dom: "\<exists>b<length a. topResonating ?r = real b * sampleRate / fftSize
            \<and> (\<forall>j<length a. a ! j \<le> a ! b) \<and> (\<forall>j<b. a ! j < a ! b)"
    using fm by (intro exI [of _ "snd (peakScan a)"]) simp
  have zero: "topResonating ?r = 0 \<and> fundamental ?r = None \<and> harmonics ?r = []"
    if z: "\<forall>v \<in> set a. v = 0"
  proof -
    have "ff = 0" unfolding ff_def fundScan_zero [OF z] by (rule binZero_freq)
    then show ?thesis using peakScan_zero [OF z] by simp
  qed
  show ?thesis using r dom zero by blast
qed

theorem dominant_frequency_witness:
  "replicate 1024 (0::int) \<noteq> [] \<and> list_all (\<lambda>v. 0 \<le> v) (replicate 1024 (0::int))
   \<and> list_all (\<lambda>v. v = 0) (replicate 1024 (0::int))
   \<and> (0::real) < 44100 \<and> (0::real) < 2048
   \<and> (\<exists>r. calculateFrequencyAnalysis (Some (replicate 1024 0)) 44100 2048 = Some r
        \<and> topResonating r = 0 \<and> fundamental r = None \<and> harmonics r = [])"
proof -
  let ?a = "replicate 1024 (0::int)"
  have h1: "?a \<noteq> []" by simp
  have h2: "\<forall>v \<in> set ?a. 0 \<le> v" by simp
  have h3: "(0::real) < 44100" by simp
  have h4: "(0::real) < 2048" by simp
  have z: "\<forall>v \<in> set ?a. v = 0" by simp
  from dominant_frequency [OF h1 h2 h3 h4] z
  have "\<exists>r. calculateFrequencyAnalysis (Some ?a) 44100 2048 = Some r
        \<and> topResonating r = 0 \<and> fundamental r = None \<and> harmonics r = []"
    by blast
  moreover have "list_all (\<lambda>v. 0 \<le> v) ?a" using h2 by (simp only: list_all_iff)
  moreover have "list_all (\<lambda>v. v = 0) ?a" using z by (simp only: list_all_iff)
  ultimately show ?thesis using h1 h3 h4 by (intro conjI)
qed










lemma dbl_round:
  assumes "2 ^ k \<le> \<bar>x\<bar>" and "\<bar>x\<bar> < 2 ^ Suc k" and "k \<le> 52"
    and "x * 2 ^ (52 - k) = q" and "roundEven q = m"
  shows "dbl x = real_of_int m / 2 ^ (52 - k)"
  using dbl_at_num [OF assms(1,2,3)] assms(4,5) by simp

lemma harmonicEntry_emits:
  "harmonicEntry a f sr n k =
     (if emits a f sr n k
      then [\<lparr>order = k, frequency = dbl (real k * f),
             amplitude = a ! nat (specHarmonicBin k f n sr)\<rparr>]
      else [])"
proof -
  have c: "f * real k = real k * f" by (simp only: mult.commute)
  show ?thesis
    unfolding harmonicEntry_def emits_def specHarmonicBin_def Let_def c by auto
qed

lemma harmonicLoop_app:
  "harmonicLoop a f sr n = harmonicEntry a f sr n 2 @ harmonicEntry a f sr n 3 @ harmonicEntry a f sr n 4"
  by (simp add: harmonicLoop_def)

lemma harmonicLoop_orders:
  "(\<exists>h \<in> set (harmonicLoop a f sr n). order h = 2) = emits a f sr n 2"
  "(\<exists>h \<in> set (harmonicLoop a f sr n). order h = 3) = emits a f sr n 3"
  "(\<exists>h \<in> set (harmonicLoop a f sr n). order h = 4) = emits a f sr n 4"
  by (auto simp add: harmonicLoop_app harmonicEntry_emits split: if_splits)

lemma harmonicLoop_entries:
  "\<forall>h \<in> set (harmonicLoop a f sr n). order h \<in> {2, 3, 4}
      \<and> frequency h = dbl (real (order h) * f)
      \<and> amplitude h = a ! nat (specHarmonicBin (order h) f n sr)"
  by (auto simp add: harmonicLoop_app harmonicEntry_emits split: if_splits)

lemma harmonicLoop_sorted:
  "sorted_wrt (<) (map order (harmonicLoop a f sr n))"
  by (simp add: harmonicLoop_app harmonicEntry_emits)

lemma harmonics_general:
  assumes "a \<noteq> []"
  shows "\<exists>r. calculateFrequencyAnalysis (Some a) sr n = Some r
     \<and> (fundamental r = None \<longrightarrow> harmonics r = [])
     \<and> (\<forall>f. fundamental r = Some f \<longrightarrow>
           (\<forall>k \<in> {2, 3, 4}. (\<exists>h \<in> set (harmonics r). order h = k) = emits a f sr n k)
           \<and> (\<forall>h \<in> set (harmonics r). order h \<in> {2, 3, 4}
                  \<and> frequency h = dbl (real (order h) * f)
                  \<and> amplitude h = a ! nat (specHarmonicBin (order h) f n sr)))
     \<and> sorted_wrt (<) (map order (harmonics r))"
proof -
  define ff where "ff = dbl (dbl (real (snd (fundScan a sr n)) * sr) / n)"
  let ?r = "\<lparr>topResonating = real (snd (peakScan a)) * sr / n,
           fundamental = (if ff > 10 then Some ff else None),
           harmonics = (if ff > 10 then harmonicLoop a ff sr n else [])\<rparr>"
  have r: "calculateFrequencyAnalysis (Some a) sr n = Some ?r"
    unfolding ff_def by (rule analysis_Some [OF assms])
  have a: "fundamental ?r = None \<longrightarrow> harmonics ?r = []" by simp
  have b: "\<forall>f. fundamental ?r = Some f \<longrightarrow>
           (\<forall>k \<in> {2, 3, 4}. (\<exists>h \<in> set (harmonics ?r). order h = k) = emits a f sr n k)
           \<and> (\<forall>h \<in> set (harmonics ?r). order h \<in> {2, 3, 4}
                  \<and> frequency h = dbl (real (order h) * f)
                  \<and> amplitude h = a ! nat (specHarmonicBin (order h) f n sr))"
  proof (intro allI impI)
    fix f assume "fundamental ?r = Some f"
    then have f: "ff > 10" "f = ff" by (simp_all split: if_splits)
    have h: "harmonics ?r = harmonicLoop a f sr n" using f by simp
    show "(\<forall>k \<in> {2, 3, 4}. (\<exists>h \<in> set (harmonics ?r). order h = k) = emits a f sr n k)
           \<and> (\<forall>h \<in> set (harmonics ?r). order h \<in> {2, 3, 4}
                  \<and> frequency h = dbl (real (order h) * f)
                  \<and> amplitude h = a ! nat (specHarmonicBin (order h) f n sr))"
      unfolding h using harmonicLoop_orders [of a f sr n] harmonicLoop_entries [of a f sr n]
      by simp
  qed
  have c: "sorted_wrt (<) (map order (harmonics ?r))"
    using harmonicLoop_sorted [of a ff sr n] by simp
  show ?thesis using r a b c by (intro exI [of _ ?r] conjI)
qed

lemma pow2_exact:
  assumes n: "n = 2 ^ e" and sr: "sr = real s" and s: "0 < s" and k: "1 \<le> k"
    and bound: "k * b * s < 2 ^ 53"
  shows "dbl (dbl (real b * sr) / n) = real b * sr / n"
    and "dbl (real k * (real b * sr / n)) = real k * (real b * sr / n)"
    and "specHarmonicBin k (real b * sr / n) n sr = int (k * b)"
proof -
  have le1: "b * s \<le> k * b * s" using k by simp
  have bs: "b * s < 2 ^ 53" using le1 bound by linarith
  have le2: "k * b \<le> k * b * s" using s by simp
  have kb: "k * b < 2 ^ 53" using le2 bound by linarith
  have p1: "real b * sr = real (b * s)" unfolding sr by simp
  have d1: "dbl (real (b * s)) = real (b * s)" by (rule dbl_nat [OF bs])
  show F: "dbl (dbl (real b * sr) / n) = real b * sr / n"
    unfolding p1 d1 n by (rule dbl_dyadic [OF bs])
  have p2: "real k * (real b * sr / n) = real (k * b * s) / 2 ^ e"
    unfolding p1 n by simp
  show G: "dbl (real k * (real b * sr / n)) = real k * (real b * sr / n)"
    unfolding p2 by (rule dbl_dyadic [OF bound])
  have p3: "real (k * b * s) / 2 ^ e * n = real (k * b * s)" unfolding n by simp
  have d3: "dbl (real (k * b * s) / 2 ^ e * n) = real (k * b * s)"
    unfolding p3 by (rule dbl_nat [OF bound])
  have p4: "real (k * b * s) / sr = real (k * b)" unfolding sr using s by simp
  have d4: "dbl (real (k * b * s) / sr) = real (k * b)"
    unfolding p4 by (rule dbl_nat [OF kb])
  show "specHarmonicBin k (real b * sr / n) n sr = int (k * b)"
    unfolding specHarmonicBin_def G unfolding p2 d3 d4 by (simp only: floor_of_nat)
qed

lemma peak_fundamental:
  assumes bU: "1 \<le> b \<and> b < fundUpper a sr n" and b2: "2 \<le> b"
    and len: "4 * b < length a" and ab: "a ! b = 200"
    and v2: "a ! (2 * b) \<le> 200" and v3: "a ! (3 * b) \<le> 200" and v4: "a ! (4 * b) \<le> 200"
    and zero: "\<forall>j<length a. j \<noteq> b \<and> j \<noteq> 2 * b \<and> j \<noteq> 3 * b \<and> j \<noteq> 4 * b \<longrightarrow> a ! j = 0"
  shows "snd (fundScan a sr n) = b"
proof -
  define fb where "fb = snd (fundScan a sr n)"
  have le200: "a ! j \<le> 200" if "j < length a" for j
    using zero [rule_format, of j] that ab v2 v3 v4 by fastforce
  have "b - 1 < length a \<and> b - 1 \<noteq> b \<and> b - 1 \<noteq> 2 * b \<and> b - 1 \<noteq> 3 * b \<and> b - 1 \<noteq> 4 * b"
    using b2 len by arith
  then have z1: "a ! (b - 1) = 0" using zero by blast
  have "b + 1 < length a \<and> b + 1 \<noteq> b \<and> b + 1 \<noteq> 2 * b \<and> b + 1 \<noteq> 3 * b \<and> b + 1 \<noteq> 4 * b"
    using b2 len by arith
  then have z2: "a ! (b + 1) = 0" using zero by blast
  have qb: "qualifies a b" using z1 z2 ab by (simp add: qualifies_def)
  have "\<exists>j. 1 \<le> j \<and> j < fundUpper a sr n \<and> qualifies a j" using bU qb by blast
  from fundScan_spec(2) [OF this] have
    p: "1 \<le> fb" "fb < fundUpper a sr n" "qualifies a fb"
      "\<forall>j. 1 \<le> j \<and> j < fundUpper a sr n \<and> qualifies a j \<longrightarrow> a ! j \<le> a ! fb"
      "\<forall>j. 1 \<le> j \<and> j < fb \<and> qualifies a j \<longrightarrow> a ! j < a ! fb"
    unfolding fb_def by simp_all
  have fblen: "fb < length a" using p(2) fundUpper_le [of a sr n] by linarith
  have "a ! b \<le> a ! fb" using p(4) bU qb by blast
  then have v: "a ! fb = 200" using le200 [OF fblen] ab by simp
  have "\<not> fb < b"
  proof
    assume lt: "fb < b"
    then have "a ! fb = 0" using zero [rule_format, of fb] fblen by simp
    then show False using v by simp
  qed
  moreover have "\<not> b < fb"
  proof
    assume "b < fb"
    then have "a ! b < a ! fb" using p(5) bU qb by blast
    then show False using v ab by simp
  qed
  ultimately show ?thesis unfolding fb_def by simp
qed

lemma harmonics_example:
  assumes n: "n = 2 ^ e" and sr: "sr = real s" and s: "0 < s" and bound: "4 * b * s < 2 ^ 53"
    and b2: "2 \<le> b" and sc: "scanned a sr n b" and f10: "10 < real b * sr / n"
    and len: "4 * b < length a" and ab: "a ! b = 200"
    and v2: "30 < a ! (2 * b)" "a ! (2 * b) \<le> 200"
    and v3: "30 < a ! (3 * b)" "a ! (3 * b) \<le> 200"
    and v4: "30 < a ! (4 * b)" "a ! (4 * b) \<le> 200"
    and zero: "\<forall>j<length a. j \<noteq> b \<and> j \<noteq> 2 * b \<and> j \<noteq> 3 * b \<and> j \<noteq> 4 * b \<longrightarrow> a ! j = 0"
  shows "calculateFrequencyAnalysis (Some a) sr n =
     Some \<lparr>topResonating = real (snd (peakScan a)) * sr / n,
           fundamental = Some (real b * sr / n),
           harmonics = [\<lparr>order = 2, frequency = 2 * (real b * sr / n), amplitude = a ! (2 * b)\<rparr>,
                        \<lparr>order = 3, frequency = 3 * (real b * sr / n), amplitude = a ! (3 * b)\<rparr>,
                        \<lparr>order = 4, frequency = 4 * (real b * sr / n), amplitude = a ! (4 * b)\<rparr>]\<rparr>"
proof -
  define F where "F = real b * sr / n"
  have ne: "a \<noteq> []" using len by auto
  have srp: "0 < sr" using sr s by simp
  have np: "0 < n" using n by simp
  have bU: "1 \<le> b \<and> b < fundUpper a sr n" using sc scanned_iff [OF srp np] by blast
  have fb: "snd (fundScan a sr n) = b"
    by (rule peak_fundamental [OF bU b2 len ab v2(2) v3(2) v4(2) zero])
  have b2s: "2 * b * s < 2 ^ 53" and b3s: "3 * b * s < 2 ^ 53" and b1s: "1 * b * s < 2 ^ 53"
    using bound by simp_all
  have ff: "dbl (dbl (real b * sr) / n) = F"
    unfolding F_def by (rule pow2_exact(1) [OF n sr s _ b1s]) simp
  have g2: "dbl (real 2 * F) = 2 * F" unfolding F_def
    using pow2_exact(2) [OF n sr s _ b2s] by simp
  have g3: "dbl (real 3 * F) = 3 * F" unfolding F_def
    using pow2_exact(2) [OF n sr s _ b3s] by simp
  have g4: "dbl (real 4 * F) = 4 * F" unfolding F_def
    using pow2_exact(2) [OF n sr s _ bound] by simp
  have h2: "specHarmonicBin 2 F n sr = int (2 * b)" unfolding F_def
    by (rule pow2_exact(3) [OF n sr s _ b2s]) simp
  have h3: "specHarmonicBin 3 F n sr = int (3 * b)" unfolding F_def
    by (rule pow2_exact(3) [OF n sr s _ b3s]) simp
  have h4: "specHarmonicBin 4 F n sr = int (4 * b)" unfolding F_def
    by (rule pow2_exact(3) [OF n sr s _ bound]) simp
  have e2: "emits a F sr n 2" unfolding emits_def h2 nat_int using len v2 by simp
  have e3: "emits a F sr n 3" unfolding emits_def h3 nat_int using len v3 by simp
  have e4: "emits a F sr n 4" unfolding emits_def h4 nat_int using len v4 by simp
  have hl: "harmonicLoop a F sr n =
      [\<lparr>order = 2, frequency = 2 * F, amplitude = a ! (2 * b)\<rparr>,
       \<lparr>order = 3, frequency = 3 * F, amplitude = a ! (3 * b)\<rparr>,
       \<lparr>order = 4, frequency = 4 * F, amplitude = a ! (4 * b)\<rparr>]"
    unfolding harmonicLoop_app harmonicEntry_emits h2 h3 h4 g2 g3 g4 nat_int
    using e2 e3 e4 by simp
  have f10': "10 < F" using f10 by (simp add: F_def)
  show ?thesis
    unfolding analysis_Some [OF ne] fb ff F_def [symmetric] using hl f10' by simp
qed

lemma r_f: "dbl (198450 / 2000) = 3491169320514355 / 35184372088832"
proof -
  have x: "(198450 / 2000 :: real) = 3969 / 40" by simp
  have "dbl (3969 / 40) = real_of_int 6982338641028710 / 2 ^ (52 - 6)"
    by (rule dbl_round [where q = "34911693205143552 / 5"]) (simp_all add: roundEven_def Let_def)
  then show ?thesis unfolding x by simp
qed

lemma r_g2: "dbl (real 2 * (3491169320514355 / 35184372088832)) = 3491169320514355 / 17592186044416"
proof -
  have x: "(real 2 * (3491169320514355 / 35184372088832) :: real) = 3491169320514355 / 17592186044416" by simp
  have "dbl (3491169320514355 / 17592186044416) = real_of_int 6982338641028710 / 2 ^ (52 - 7)"
    by (rule dbl_round [where q = "6982338641028710"]) (simp_all add: roundEven_def Let_def)
  then show ?thesis unfolding x by simp
qed

lemma r_h2: "dbl (3491169320514355 / 17592186044416 * 2000) = 396900"
proof -
  have x: "(3491169320514355 / 17592186044416 * 2000 :: real) = 436396165064294375 / 1099511627776" by simp
  have "dbl (436396165064294375 / 1099511627776) = real_of_int 6818690079129600 / 2 ^ (52 - 18)"
    by (rule dbl_round [where q = "436396165064294375 / 64"]) (simp_all add: roundEven_def Let_def)
  then show ?thesis unfolding x by simp
qed

lemma r_y2: "dbl (396900 / 22050) = 18"
proof -
  have x: "(396900 / 22050 :: real) = 18" by simp
  have "dbl (18) = real_of_int 5066549580791808 / 2 ^ (52 - 4)"
    by (rule dbl_round [where q = "5066549580791808"]) (simp_all add: roundEven_def Let_def)
  then show ?thesis unfolding x by simp
qed

lemma r_g3: "dbl (real 3 * (3491169320514355 / 35184372088832)) = 1309188495192883 / 4398046511104"
proof -
  have x: "(real 3 * (3491169320514355 / 35184372088832) :: real) = 10473507961543065 / 35184372088832" by simp
  have "dbl (10473507961543065 / 35184372088832) = real_of_int 5236753980771532 / 2 ^ (52 - 8)"
    by (rule dbl_round [where q = "10473507961543065 / 2"]) (simp_all add: roundEven_def Let_def)
  then show ?thesis unfolding x by simp
qed

lemma r_h3: "dbl (1309188495192883 / 4398046511104 * 2000) = 5114017559347199 / 8589934592"
proof -
  have x: "(1309188495192883 / 4398046511104 * 2000 :: real) = 163648561899110375 / 274877906944" by simp
  have "dbl (163648561899110375 / 274877906944) = real_of_int 5114017559347199 / 2 ^ (52 - 19)"
    by (rule dbl_round [where q = "163648561899110375 / 32"]) (simp_all add: roundEven_def Let_def)
  then show ?thesis unfolding x by simp
qed

lemma r_y3: "dbl (5114017559347199 / 8589934592 / 22050) = 7599824371187711 / 281474976710656"
proof -
  have x: "(5114017559347199 / 8589934592 / 22050 :: real) = 5114017559347199 / 189408057753600" by simp
  have "dbl (5114017559347199 / 189408057753600) = real_of_int 7599824371187711 / 2 ^ (52 - 4)"
    by (rule dbl_round [where q = "83788063692344508416 / 11025"]) (simp_all add: roundEven_def Let_def)
  then show ?thesis unfolding x by simp
qed

lemma r_g4: "dbl (real 4 * (3491169320514355 / 35184372088832)) = 3491169320514355 / 8796093022208"
proof -
  have x: "(real 4 * (3491169320514355 / 35184372088832) :: real) = 3491169320514355 / 8796093022208" by simp
  have "dbl (3491169320514355 / 8796093022208) = real_of_int 6982338641028710 / 2 ^ (52 - 8)"
    by (rule dbl_round [where q = "6982338641028710"]) (simp_all add: roundEven_def Let_def)
  then show ?thesis unfolding x by simp
qed

lemma r_h4: "dbl (3491169320514355 / 8796093022208 * 2000) = 793800"
proof -
  have x: "(3491169320514355 / 8796093022208 * 2000 :: real) = 436396165064294375 / 549755813888" by simp
  have "dbl (436396165064294375 / 549755813888) = real_of_int 6818690079129600 / 2 ^ (52 - 19)"
    by (rule dbl_round [where q = "436396165064294375 / 64"]) (simp_all add: roundEven_def Let_def)
  then show ?thesis unfolding x by simp
qed

lemma r_y4: "dbl (793800 / 22050) = 36"
proof -
  have x: "(793800 / 22050 :: real) = 36" by simp
  have "dbl (36) = real_of_int 5066549580791808 / 2 ^ (52 - 5)"
    by (rule dbl_round [where q = "5066549580791808"]) (simp_all add: roundEven_def Let_def)
  then show ?thesis unfolding x by simp
qed

text \<open>
  C6, as amended. Harmonics are computed only when a fundamental was found. For each order
  2, 3, 4, with the harmonic bin \<open>floor (order * fundamental * fftSize / sampleRate)\<close> as
  the program computes it in doubles, the entry of that order, with the frequency
  \<open>order * fundamental\<close> (a double) and the magnitude of that bin as amplitude, is emitted
  exactly when the bin is in range and its magnitude is above 30, and the list is in
  ascending order of \<open>order\<close>. In particular, for a transform size that is a power of two
  and a whole sample rate \<open>s\<close> (with \<open>4 * b * s < 2 ^ 53\<close>), an array with a single peak of
  200 at a bin \<open>b \<ge> 2\<close> that the search for the fundamental visits and whose frequency
  \<open>f = b * sampleRate / fftSize\<close> is above 10 Hz, values above 30 and not above 200 at the
  bins \<open>2b\<close>, \<open>3b\<close>, \<open>4b\<close>, and 0 elsewhere gives the fundamental \<open>f\<close> and the harmonics of
  orders 2, 3, 4, in ascending order, with the frequencies \<open>2f\<close>, \<open>3f\<close>, \<open>4f\<close> and the
  magnitudes of the bins \<open>2b\<close>, \<open>3b\<close>, \<open>4b\<close>. With \<open>b\<close> the bin for 100 Hz this is the
  example of the specification wherever the bins for 200, 300 and 400 Hz are \<open>2b\<close>, \<open>3b\<close>
  and \<open>4b\<close>, as at the sample rate 96000 and transform size 2048 (bins 2, 4, 6, 8).
\<close>

theorem harmonics_from_fundamental:
  assumes "a \<noteq> []" and "0 < sampleRate" and "0 < fftSize"
  shows "\<exists>r. calculateFrequencyAnalysis (Some a) sampleRate fftSize = Some r
     \<and> (fundamental r = None \<longrightarrow> harmonics r = [])
     \<and> (\<forall>f. fundamental r = Some f \<longrightarrow>
           (\<forall>k \<in> {2, 3, 4}. (\<exists>h \<in> set (harmonics r). order h = k)
                                 = emits a f sampleRate fftSize k)
           \<and> (\<forall>h \<in> set (harmonics r). order h \<in> {2, 3, 4}
                  \<and> frequency h = dbl (real (order h) * f)
                  \<and> amplitude h = a ! nat (specHarmonicBin (order h) f fftSize sampleRate)))
     \<and> sorted_wrt (<) (map order (harmonics r))
     \<and> (\<forall>b e s. fftSize = 2 ^ e \<and> sampleRate = real s \<and> 4 * b * s < 2 ^ 53
              \<and> 2 \<le> b \<and> scanned a sampleRate fftSize b
              \<and> 10 < real b * sampleRate / fftSize
              \<and> 4 * b < length a \<and> a ! b = 200
              \<and> 30 < a ! (2 * b) \<and> a ! (2 * b) \<le> 200
              \<and> 30 < a ! (3 * b) \<and> a ! (3 * b) \<le> 200
              \<and> 30 < a ! (4 * b) \<and> a ! (4 * b) \<le> 200
              \<and> (\<forall>j<length a. j \<noteq> b \<and> j \<noteq> 2 * b \<and> j \<noteq> 3 * b \<and> j \<noteq> 4 * b \<longrightarrow> a ! j = 0)
            \<longrightarrow> fundamental r = Some (real b * sampleRate / fftSize)
              \<and> harmonics r =
                  [\<lparr>order = 2, frequency = 2 * (real b * sampleRate / fftSize),
                     amplitude = a ! (2 * b)\<rparr>,
                   \<lparr>order = 3, frequency = 3 * (real b * sampleRate / fftSize),
                     amplitude = a ! (3 * b)\<rparr>,
                   \<lparr>order = 4, frequency = 4 * (real b * sampleRate / fftSize),
                     amplitude = a ! (4 * b)\<rparr>])"
proof -
  from harmonics_general [OF assms(1), of sampleRate fftSize] obtain r where
    r: "calculateFrequencyAnalysis (Some a) sampleRate fftSize = Some r"
    and g1: "fundamental r = None \<longrightarrow> harmonics r = []"
    and g2: "\<forall>f. fundamental r = Some f \<longrightarrow>
           (\<forall>k \<in> {2, 3, 4}. (\<exists>h \<in> set (harmonics r). order h = k)
                                 = emits a f sampleRate fftSize k)
           \<and> (\<forall>h \<in> set (harmonics r). order h \<in> {2, 3, 4}
                  \<and> frequency h = dbl (real (order h) * f)
                  \<and> amplitude h = a ! nat (specHarmonicBin (order h) f fftSize sampleRate))"
    and g3: "sorted_wrt (<) (map order (harmonics r))"
    by (elim exE conjE)
  have g4: "fundamental r = Some (real b * sampleRate / fftSize)
              \<and> harmonics r =
                  [\<lparr>order = 2, frequency = 2 * (real b * sampleRate / fftSize),
                     amplitude = a ! (2 * b)\<rparr>,
                   \<lparr>order = 3, frequency = 3 * (real b * sampleRate / fftSize),
                     amplitude = a ! (3 * b)\<rparr>,
                   \<lparr>order = 4, frequency = 4 * (real b * sampleRate / fftSize),
                     amplitude = a ! (4 * b)\<rparr>]"
    if h: "fftSize = 2 ^ e \<and> sampleRate = real s \<and> 4 * b * s < 2 ^ 53
              \<and> 2 \<le> b \<and> scanned a sampleRate fftSize b
              \<and> 10 < real b * sampleRate / fftSize
              \<and> 4 * b < length a \<and> a ! b = 200
              \<and> 30 < a ! (2 * b) \<and> a ! (2 * b) \<le> 200
              \<and> 30 < a ! (3 * b) \<and> a ! (3 * b) \<le> 200
              \<and> 30 < a ! (4 * b) \<and> a ! (4 * b) \<le> 200
              \<and> (\<forall>j<length a. j \<noteq> b \<and> j \<noteq> 2 * b \<and> j \<noteq> 3 * b \<and> j \<noteq> 4 * b \<longrightarrow> a ! j = 0)"
    for b e s
  proof -
    have sr: "sampleRate = real s" using h by blast
    have s: "0 < s" using assms(2) sr by simp
    have eq: "calculateFrequencyAnalysis (Some a) sampleRate fftSize =
       Some \<lparr>topResonating = real (snd (peakScan a)) * sampleRate / fftSize,
           fundamental = Some (real b * sampleRate / fftSize),
           harmonics =
                  [\<lparr>order = 2, frequency = 2 * (real b * sampleRate / fftSize),
                     amplitude = a ! (2 * b)\<rparr>,
                   \<lparr>order = 3, frequency = 3 * (real b * sampleRate / fftSize),
                     amplitude = a ! (3 * b)\<rparr>,
                   \<lparr>order = 4, frequency = 4 * (real b * sampleRate / fftSize),
                     amplitude = a ! (4 * b)\<rparr>]\<rparr>"
      by (rule harmonics_example [where e = e and s = s]) (use h s in blast)+
    have req: "r = \<lparr>topResonating = real (snd (peakScan a)) * sampleRate / fftSize,
           fundamental = Some (real b * sampleRate / fftSize),
           harmonics =
                  [\<lparr>order = 2, frequency = 2 * (real b * sampleRate / fftSize),
                     amplitude = a ! (2 * b)\<rparr>,
                   \<lparr>order = 3, frequency = 3 * (real b * sampleRate / fftSize),
                     amplitude = a ! (3 * b)\<rparr>,
                   \<lparr>order = 4, frequency = 4 * (real b * sampleRate / fftSize),
                     amplitude = a ! (4 * b)\<rparr>]\<rparr>"
      using r eq by simp
    show ?thesis by (subst req, subst req) simp
  qed
  show ?thesis
    apply (rule exI [of _ r])
    apply (intro conjI)
        apply (rule r)
       apply (rule g1)
      apply (rule g2)
     apply (rule g3)
    apply (intro allI impI)
    apply (erule g4)
    done
qed

theorem harmonics_from_fundamental_witness:
  "[0, 0, 200, 0, 90, 0, 60, 0, 40] \<noteq> ([] :: int list) \<and> (0::real) < 96000 \<and> (0::real) < 2048
   \<and> (2048::real) = 2 ^ 11 \<and> (96000::real) = real 96000
   \<and> freqToBin 100 96000 2048 = 2 \<and> freqToBin 200 96000 2048 = 4
   \<and> freqToBin 300 96000 2048 = 6 \<and> freqToBin 400 96000 2048 = 8
   \<and> scanned [0, 0, 200, 0, 90, 0, 60, 0, 40] 96000 2048 2
   \<and> (10::real) < real 2 * 96000 / 2048
   \<and> (\<exists>r. calculateFrequencyAnalysis (Some [0, 0, 200, 0, 90, 0, 60, 0, 40]) 96000 2048 = Some r
        \<and> fundamental r = Some (375 / 4)
        \<and> harmonics r = [\<lparr>order = 2, frequency = 375 / 2, amplitude = 90\<rparr>,
                          \<lparr>order = 3, frequency = 1125 / 4, amplitude = 60\<rparr>,
                          \<lparr>order = 4, frequency = 375, amplitude = 40\<rparr>]
        \<and> sorted_wrt (<) (map order (harmonics r)))"
proof -
  let ?a = "[0, 0, 200, 0, 90, 0, 60, 0, 40] :: int list"
  have h1: "?a \<noteq> []" by simp
  have h2: "(0::real) < 96000" by simp
  have h3: "(0::real) < 2048" by simp
  have p2: "(2048::real) = 2 ^ 11" by simp
  have ps: "(96000::real) = real 96000" by simp
  have fb: "freqToBin 100 96000 2048 = 2" "freqToBin 200 96000 2048 = 4"
    "freqToBin 300 96000 2048 = 6" "freqToBin 400 96000 2048 = 8"
    by (simp_all add: freqToBin_def)
  have sc: "scanned ?a 96000 2048 2" by (simp add: scanned_def)
  have f10: "(10::real) < real 2 * 96000 / 2048" by simp
  have z: "\<forall>j<length ?a. j \<noteq> 2 \<and> j \<noteq> 2 * 2 \<and> j \<noteq> 3 * 2 \<and> j \<noteq> 4 * 2 \<longrightarrow> ?a ! j = 0"
  proof (intro allI impI)
    fix j :: nat assume "j < length ?a" and ne: "j \<noteq> 2 \<and> j \<noteq> 2 * 2 \<and> j \<noteq> 3 * 2 \<and> j \<noteq> 4 * 2"
    then have "j < 9" by simp
    then have "j = 0 \<or> j = 1 \<or> j = 2 \<or> j = 3 \<or> j = 4 \<or> j = 5 \<or> j = 6 \<or> j = 7 \<or> j = 8"
      by arith
    then show "?a ! j = 0" using ne by auto
  qed
  have hyp: "(2048::real) = 2 ^ 11 \<and> (96000::real) = real 96000 \<and> 4 * 2 * 96000 < (2::nat) ^ 53
              \<and> 2 \<le> (2::nat) \<and> scanned ?a 96000 2048 2
              \<and> 10 < real 2 * 96000 / 2048
              \<and> 4 * 2 < length ?a \<and> ?a ! 2 = 200
              \<and> 30 < ?a ! (2 * 2) \<and> ?a ! (2 * 2) \<le> 200
              \<and> 30 < ?a ! (3 * 2) \<and> ?a ! (3 * 2) \<le> 200
              \<and> 30 < ?a ! (4 * 2) \<and> ?a ! (4 * 2) \<le> 200
              \<and> (\<forall>j<length ?a. j \<noteq> 2 \<and> j \<noteq> 2 * 2 \<and> j \<noteq> 3 * 2 \<and> j \<noteq> 4 * 2 \<longrightarrow> ?a ! j = 0)"
    using z sc by simp
  from harmonics_from_fundamental [OF h1 h2 h3] obtain r where
    r: "calculateFrequencyAnalysis (Some ?a) 96000 2048 = Some r"
    and s: "sorted_wrt (<) (map order (harmonics r))"
    and imp: "\<forall>b e s. (2048::real) = 2 ^ e \<and> (96000::real) = real s \<and> 4 * b * s < 2 ^ 53
              \<and> 2 \<le> b \<and> scanned ?a 96000 2048 b
              \<and> 10 < real b * 96000 / 2048
              \<and> 4 * b < length ?a \<and> ?a ! b = 200
              \<and> 30 < ?a ! (2 * b) \<and> ?a ! (2 * b) \<le> 200
              \<and> 30 < ?a ! (3 * b) \<and> ?a ! (3 * b) \<le> 200
              \<and> 30 < ?a ! (4 * b) \<and> ?a ! (4 * b) \<le> 200
              \<and> (\<forall>j<length ?a. j \<noteq> b \<and> j \<noteq> 2 * b \<and> j \<noteq> 3 * b \<and> j \<noteq> 4 * b \<longrightarrow> ?a ! j = 0)
            \<longrightarrow> fundamental r = Some (real b * 96000 / 2048)
              \<and> harmonics r =
                  [\<lparr>order = 2, frequency = 2 * (real b * 96000 / 2048),
                     amplitude = ?a ! (2 * b)\<rparr>,
                   \<lparr>order = 3, frequency = 3 * (real b * 96000 / 2048),
                     amplitude = ?a ! (3 * b)\<rparr>,
                   \<lparr>order = 4, frequency = 4 * (real b * 96000 / 2048),
                     amplitude = ?a ! (4 * b)\<rparr>]"
    by (elim exE conjE)
  from imp [rule_format, of 11 96000 2, OF hyp] have
    "fundamental r = Some (375 / 4)
     \<and> harmonics r = [\<lparr>order = 2, frequency = 375 / 2, amplitude = 90\<rparr>,
                       \<lparr>order = 3, frequency = 1125 / 4, amplitude = 60\<rparr>,
                       \<lparr>order = 4, frequency = 375, amplitude = 40\<rparr>]"
    by simp
  then have "\<exists>r. calculateFrequencyAnalysis (Some ?a) 96000 2048 = Some r
        \<and> fundamental r = Some (375 / 4)
        \<and> harmonics r = [\<lparr>order = 2, frequency = 375 / 2, amplitude = 90\<rparr>,
                          \<lparr>order = 3, frequency = 1125 / 4, amplitude = 60\<rparr>,
                          \<lparr>order = 4, frequency = 375, amplitude = 40\<rparr>]
        \<and> sorted_wrt (<) (map order (harmonics r))"
    using r s by (intro exI [of _ r]) simp
  then show ?thesis using h1 h2 h3 p2 ps fb sc f10 by (intro conjI)
qed

lemma cex6_scans:
  "peakScan [0, 0, 0, 0, 200, 0, 0, 0, 0, 40, 0, 0, 0, 40, 0, 0, 0, 0, 40, 0] = (200, 4)"
  "fundScan [0, 0, 0, 0, 200, 0, 0, 0, 0, 40, 0, 0, 0, 40, 0, 0, 0, 0, 40, 0] 44100 2048 = (200, 4)"
  "peakScan [0, 0, 0, 0, 0, 0, 0, 0, 0, 200, 0, 0, 0, 0, 0, 0, 0, 0, 40, 0, 0, 0, 0, 0, 0, 0, 0, 40, 0, 0, 0, 0, 0, 0, 0, 0, 40] = (200, 9)"
  "fundScan [0, 0, 0, 0, 0, 0, 0, 0, 0, 200, 0, 0, 0, 0, 0, 0, 0, 0, 40, 0, 0, 0, 0, 0, 0, 0, 0, 40, 0, 0, 0, 0, 0, 0, 0, 0, 40] 22050 2000 = (200, 9)"
  by code_simp+

lemma cex6_first:
  "calculateFrequencyAnalysis (Some [0, 0, 0, 0, 200, 0, 0, 0, 0, 40, 0, 0, 0, 40, 0, 0, 0, 0, 40, 0]) 44100 2048
     = Some \<lparr>topResonating = 11025 / 128, fundamental = Some (11025 / 128), harmonics = []\<rparr>"
proof -
  let ?a = "[0, 0, 0, 0, 200, 0, 0, 0, 0, 40, 0, 0, 0, 40, 0, 0, 0, 0, 40, 0] :: int list"
  define F :: real where "F = real 4 * real 44100 / 2 ^ 11"
  have ne: "?a \<noteq> []" by simp
  have n: "(2 ^ 11 :: real) = 2 ^ 11" by simp
  have sr: "real 44100 = real 44100" by simp
  have ff: "dbl (dbl (real 4 * real 44100) / 2 ^ 11) = F" unfolding F_def
    by (rule pow2_exact(1) [where k = 1 and s = 44100 and e = 11]) simp_all
  have h: "specHarmonicBin k F (2 ^ 11) (real 44100) = int (k * 4)"
    if "1 \<le> k" "k \<le> 4" for k
    unfolding F_def
    by (rule pow2_exact(3) [where s = 44100 and e = 11]) (use that in simp_all)
  have Fv: "F = 11025 / 128" by (simp add: F_def)
  have h2: "specHarmonicBin 2 F 2048 44100 = 8" using h [of 2] by simp
  have h3: "specHarmonicBin 3 F 2048 44100 = 12" using h [of 3] by simp
  have h4: "specHarmonicBin 4 F 2048 44100 = 16" using h [of 4] by simp
  have e2: "\<not> emits ?a F 44100 2048 2" unfolding emits_def h2 by simp
  have e3: "\<not> emits ?a F 44100 2048 3" unfolding emits_def h3 by simp
  have e4: "\<not> emits ?a F 44100 2048 4" unfolding emits_def h4 by simp
  have hl: "harmonicLoop ?a F 44100 2048 = []"
    unfolding harmonicLoop_app harmonicEntry_emits using e2 e3 e4 by simp
  have ff': "dbl (dbl (real 4 * 44100) / 2048) = F" using ff by simp
  have "calculateFrequencyAnalysis (Some ?a) 44100 2048
     = Some \<lparr>topResonating = 11025 / 128, fundamental = Some (11025 / 128), harmonics = []\<rparr>"
  proof -
    have fs: "snd (fundScan ?a 44100 2048) = 4" using cex6_scans(2) by simp
    have ps: "snd (peakScan ?a) = 4" using cex6_scans(1) by simp
    show ?thesis
      unfolding analysis_Some [OF ne] fs ps ff' hl unfolding Fv by simp
  qed
  then show ?thesis by simp
qed

lemma cex6_second:
  "calculateFrequencyAnalysis (Some [0, 0, 0, 0, 0, 0, 0, 0, 0, 200, 0, 0, 0, 0, 0, 0, 0, 0, 40, 0, 0, 0, 0, 0, 0, 0, 0, 40, 0, 0, 0, 0, 0, 0, 0, 0, 40]) 22050 2000
     = Some \<lparr>topResonating = 3969 / 40,
             fundamental = Some (3491169320514355 / 35184372088832),
             harmonics = [\<lparr>order = 2, frequency = 3491169320514355 / 17592186044416, amplitude = 40\<rparr>,
                          \<lparr>order = 4, frequency = 3491169320514355 / 8796093022208, amplitude = 40\<rparr>]\<rparr>"
proof -
  let ?a = "[0, 0, 0, 0, 0, 0, 0, 0, 0, 200, 0, 0, 0, 0, 0, 0, 0, 0, 40, 0, 0, 0, 0, 0, 0, 0, 0, 40, 0, 0, 0, 0, 0, 0, 0, 0, 40] :: int list"
  let ?F = "3491169320514355 / 35184372088832 :: real"
  have ne: "?a \<noteq> []" by simp
  have fs: "snd (fundScan ?a 22050 2000) = 9" by (simp add: cex6_scans(4))
  have ps: "snd (peakScan ?a) = 9" by (simp add: cex6_scans(3))
  have "dbl (real 198450) = real 198450" by (rule dbl_nat) simp
  then have d0: "dbl (real 9 * 22050) = 198450" by simp
  have ff: "dbl (dbl (real 9 * 22050) / 2000) = ?F" unfolding d0 by (rule r_f)
  have b2: "specHarmonicBin 2 ?F 2000 22050 = 18"
    unfolding specHarmonicBin_def r_g2 r_h2 r_y2 by simp
  have b3: "specHarmonicBin 3 ?F 2000 22050 = 26"
    unfolding specHarmonicBin_def r_g3 r_h3 r_y3 by simp
  have b4: "specHarmonicBin 4 ?F 2000 22050 = 36"
    unfolding specHarmonicBin_def r_g4 r_h4 r_y4 by simp
  have e2: "emits ?a ?F 22050 2000 2" unfolding emits_def b2 by simp
  have e3: "\<not> emits ?a ?F 22050 2000 3" unfolding emits_def b3 by simp
  have e4: "emits ?a ?F 22050 2000 4" unfolding emits_def b4 by simp
  have hl: "harmonicLoop ?a ?F 22050 2000 =
      [\<lparr>order = 2, frequency = 3491169320514355 / 17592186044416, amplitude = 40\<rparr>,
       \<lparr>order = 4, frequency = 3491169320514355 / 8796093022208, amplitude = 40\<rparr>]"
    unfolding harmonicLoop_app harmonicEntry_emits b2 b4 r_g2 r_g4
    using e2 e3 e4 by simp
  show ?thesis
    unfolding analysis_Some [OF ne] fs ps ff using hl by simp
qed

text \<open>
  C6 as stated fails in its example. At the sample rate 44100 and transform size 2048 of
  the program, the bins for 100, 200, 300 and 400 Hz are 4, 9, 13 and 18; the fundamental
  found is the frequency of bin 4 (86.13 Hz), its multiples fall in the bins 8, 12 and 16,
  which hold 0, and no harmonic is emitted. At the sample rate 22050 and transform size
  2000, which a recording read from a file can carry, the bins for 100, 200, 300 and
  400 Hz are 9, 18, 27 and 36, multiples of the bin of the fundamental (99.225 Hz); but
  three times the fundamental, times 2000, over 22050 is a double just below 27, bin 26
  is read, which holds 0, and only the orders 2 and 4 are emitted.
\<close>

theorem harmonics_example_counterexample:
  "freqToBin 100 44100 2048 = 4 \<and> freqToBin 200 44100 2048 = 9
   \<and> freqToBin 300 44100 2048 = 13 \<and> freqToBin 400 44100 2048 = 18
   \<and> calculateFrequencyAnalysis (Some [0, 0, 0, 0, 200, 0, 0, 0, 0, 40, 0, 0, 0, 40, 0, 0, 0, 0, 40, 0]) 44100 2048
     = Some \<lparr>topResonating = 11025 / 128, fundamental = Some (11025 / 128), harmonics = []\<rparr>
   \<and> freqToBin 100 22050 2000 = 9 \<and> freqToBin 200 22050 2000 = 18
   \<and> freqToBin 300 22050 2000 = 27 \<and> freqToBin 400 22050 2000 = 36
   \<and> calculateFrequencyAnalysis (Some [0, 0, 0, 0, 0, 0, 0, 0, 0, 200, 0, 0, 0, 0, 0, 0, 0, 0, 40, 0, 0, 0, 0, 0, 0, 0, 0, 40, 0, 0, 0, 0, 0, 0, 0, 0, 40]) 22050 2000
     = Some \<lparr>topResonating = 3969 / 40,
             fundamental = Some (3491169320514355 / 35184372088832),
             harmonics = [\<lparr>order = 2, frequency = 3491169320514355 / 17592186044416, amplitude = 40\<rparr>,
                          \<lparr>order = 4, frequency = 3491169320514355 / 8796093022208, amplitude = 40\<rparr>]\<rparr>"
proof -
  have a: "freqToBin 100 44100 2048 = 4 \<and> freqToBin 200 44100 2048 = 9
   \<and> freqToBin 300 44100 2048 = 13 \<and> freqToBin 400 44100 2048 = 18"
    by (simp add: freqToBin_def)
  have b: "freqToBin 100 22050 2000 = 9 \<and> freqToBin 200 22050 2000 = 18
   \<and> freqToBin 300 22050 2000 = 27 \<and> freqToBin 400 22050 2000 = 36"
    by (simp add: freqToBin_def)
  show ?thesis using a b cex6_first cex6_second by (intro conjI) simp_all
qed

section \<open>Properties of the replay\<close>

lemma firstAtOrAfter_None:
  "firstAtOrAfter fs e = None \<longleftrightarrow> (\<forall>f \<in> set fs. t f < e)"
  by (induction fs) auto

lemma firstAtOrAfter_Some:
  "firstAtOrAfter fs e = Some g \<Longrightarrow>
     \<exists>k<length fs. g = fs ! k \<and> e \<le> t (fs ! k) \<and> (\<forall>j<k. t (fs ! j) < e)"
proof (induction fs)
  case Nil
  then show ?case by simp
next
  case (Cons f fs)
  show ?case
  proof (cases "e \<le> t f")
    case True
    then have "g = f" using Cons.prems by simp
    then show ?thesis using True by (intro exI [of _ 0]) simp
  next
    case False
    then have "firstAtOrAfter fs e = Some g" using Cons.prems by simp
    from Cons.IH [OF this] obtain k where
      k: "k < length fs" "g = fs ! k" "e \<le> t (fs ! k)" "\<forall>j<k. t (fs ! j) < e" by blast
    have "\<forall>j<Suc k. t ((f # fs) ! j) < e"
      using k(4) False by (auto simp: less_Suc_eq_0_disj)
    then show ?thesis using k by (intro exI [of _ "Suc k"]) simp
  qed
qed

lemma sorted_last_max:
  assumes "sorted (map t fs)" "f \<in> set fs"
  shows "t f \<le> t (last fs)"
  using assms
proof (induction fs)
  case Nil
  then show ?case by simp
next
  case (Cons g gs)
  show ?case
  proof (cases "gs = []")
    case True
    then show ?thesis using Cons.prems by simp
  next
    case False
    have s: "sorted (map t gs)" using Cons.prems(1) by simp
    have l: "last gs \<in> set gs" using False by simp
    show ?thesis
    proof (cases "f = g")
      case True
      have "t g \<le> t (last gs)" using Cons.prems(1) l by auto
      then show ?thesis using True False by simp
    next
      case False
      then have "f \<in> set gs" using Cons.prems(2) by simp
      then show ?thesis using Cons.IH [OF s] \<open>gs \<noteq> []\<close> by simp
    qed
  qed
qed

text \<open>
  C2. Replay frame selection and termination. On a non-empty chronological frame list, a
  tick at an elapsed time not beyond the last timestamp draws the first frame, in list
  order, whose \<open>t\<close> is at least \<open>elapsed\<close> (every earlier frame is older than \<open>elapsed\<close>) and
  requests the next tick; a tick at an elapsed time beyond the last timestamp, where no
  frame qualifies, draws the last frame and ends the replay.
\<close>

theorem replay_selection:
  assumes "fs \<noteq> []" and "sorted (map t fs)"
  shows "(elapsed \<le> t (last fs) \<longrightarrow>
            (\<exists>k<length fs. fst (drawReplay fs True elapsed) = fs ! k
                \<and> elapsed \<le> t (fs ! k) \<and> (\<forall>j<k. t (fs ! j) < elapsed))
            \<and> snd (drawReplay fs True elapsed))
       \<and> (t (last fs) < elapsed \<longrightarrow>
            (\<forall>f \<in> set fs. t f < elapsed)
            \<and> fst (drawReplay fs True elapsed) = last fs
            \<and> \<not> snd (drawReplay fs True elapsed))"
proof (intro conjI impI)
  assume le: "elapsed \<le> t (last fs)"
  have "last fs \<in> set fs" using assms(1) by simp
  then have "\<not> (\<forall>f \<in> set fs. t f < elapsed)"
    using le by (intro notI) (fastforce simp: not_less)
  then have "firstAtOrAfter fs elapsed \<noteq> None"
    by (simp only: firstAtOrAfter_None not_False_eq_True)
  then obtain g where g: "firstAtOrAfter fs elapsed = Some g" by blast
  from firstAtOrAfter_Some [OF g]
  show "\<exists>k<length fs. fst (drawReplay fs True elapsed) = fs ! k
                \<and> elapsed \<le> t (fs ! k) \<and> (\<forall>j<k. t (fs ! j) < elapsed)"
    using g by (simp add: drawReplay_def selectFrame_def)
  show "snd (drawReplay fs True elapsed)" using le by (simp add: drawReplay_def)
next
  assume gt: "t (last fs) < elapsed"
  show all: "\<forall>f \<in> set fs. t f < elapsed"
    using sorted_last_max [OF assms(2)] gt by fastforce
  then have "firstAtOrAfter fs elapsed = None" by (simp add: firstAtOrAfter_None)
  then show "fst (drawReplay fs True elapsed) = last fs"
    by (simp add: drawReplay_def selectFrame_def)
  show "\<not> snd (drawReplay fs True elapsed)" using gt by (simp add: drawReplay_def)
qed

theorem replay_selection_witness:
  "[\<lparr>t = 0, freq = [1], timeDomain = [128]\<rparr>, \<lparr>t = 100, freq = [2], timeDomain = [128]\<rparr>,
    \<lparr>t = 200, freq = [3], timeDomain = [128]\<rparr>] \<noteq> []
   \<and> sorted (map t [\<lparr>t = 0, freq = [1], timeDomain = [128]\<rparr>,
                      \<lparr>t = 100, freq = [2], timeDomain = [128]\<rparr>,
                      \<lparr>t = 200, freq = [3], timeDomain = [128]\<rparr>])
   \<and> drawReplay [\<lparr>t = 0, freq = [1], timeDomain = [128]\<rparr>,
                  \<lparr>t = 100, freq = [2], timeDomain = [128]\<rparr>,
                  \<lparr>t = 200, freq = [3], timeDomain = [128]\<rparr>] True 150
       = (\<lparr>t = 200, freq = [3], timeDomain = [128]\<rparr>, True)
   \<and> drawReplay [\<lparr>t = 0, freq = [1], timeDomain = [128]\<rparr>,
                  \<lparr>t = 100, freq = [2], timeDomain = [128]\<rparr>,
                  \<lparr>t = 200, freq = [3], timeDomain = [128]\<rparr>] True 250
       = (\<lparr>t = 200, freq = [3], timeDomain = [128]\<rparr>, False)"
proof -
  let ?fs = "[\<lparr>t = 0, freq = [1], timeDomain = [128]\<rparr>,
              \<lparr>t = 100, freq = [2], timeDomain = [128]\<rparr>,
              \<lparr>t = 200, freq = [3], timeDomain = [128]\<rparr>]"
  have h1: "?fs \<noteq> []" by simp
  have h2: "sorted (map t ?fs)" by simp
  have late: "t (last ?fs) < 250" by simp
  from replay_selection [OF h1 h2, of 250] late
  have "fst (drawReplay ?fs True 250) = last ?fs \<and> \<not> snd (drawReplay ?fs True 250)"
    by blast
  then have b: "drawReplay ?fs True 250 = (\<lparr>t = 200, freq = [3], timeDomain = [128]\<rparr>, False)"
    by (simp add: prod_eq_iff)
  have a: "drawReplay ?fs True 150 = (\<lparr>t = 200, freq = [3], timeDomain = [128]\<rparr>, True)"
    by (simp add: drawReplay_def selectFrame_def)
  show ?thesis using h1 h2 a b by (intro conjI)
qed

section \<open>Properties of the recording\<close>

lemma saveFrame_started:
  assumes "isRecordingRef st" "recordingStartRef st = Some s"
  shows "saveFrame st now fd td =
     st\<lparr>recordedFramesRef := recordedFramesRef st @ [mkFrame s (now, fd, td)]\<rparr>"
  using assms by (simp add: saveFrame_def mkFrame_def)

lemma saveFrame_first:
  assumes "isRecordingRef st" "recordingStartRef st = None"
  shows "saveFrame st now fd td =
     st\<lparr>recordingStartRef := Some now, recordedFramesRef := [mkFrame now (now, fd, td)]\<rparr>"
  using assms by (simp add: saveFrame_def mkFrame_def)

lemma liveTicks_started:
  assumes "isRecordingRef st" "recordingStartRef st = Some s"
  shows "liveTicks st ticks =
     st\<lparr>recordedFramesRef := recordedFramesRef st @ map (mkFrame s) ticks\<rparr>"
  using assms
proof (induction ticks arbitrary: st)
  case Nil
  then show ?case by simp
next
  case (Cons x xs)
  obtain now fd td where x: "x = (now, fd, td)" by (cases x) auto
  let ?st1 = "st\<lparr>recordedFramesRef := recordedFramesRef st @ [mkFrame s (now, fd, td)]\<rparr>"
  have s1: "saveFrame st now fd td = ?st1" by (rule saveFrame_started [OF Cons.prems])
  have a: "isRecordingRef ?st1" using Cons.prems by simp
  have b: "recordingStartRef ?st1 = Some s" using Cons.prems by simp
  show ?case unfolding x liveTicks.simps s1 Cons.IH [OF a b] by simp
qed

lemma liveTicks_fresh:
  assumes "isRecordingRef st" "recordingStartRef st = None" "ticks \<noteq> []"
  shows "liveTicks st ticks =
     st\<lparr>recordingStartRef := Some (fst (hd ticks)),
        recordedFramesRef := map (mkFrame (fst (hd ticks))) ticks\<rparr>"
proof -
  obtain x xs where t: "ticks = x # xs" using assms(3) by (cases ticks) auto
  obtain now fd td where x: "x = (now, fd, td)" by (cases x) auto
  let ?st1 = "st\<lparr>recordingStartRef := Some now, recordedFramesRef := [mkFrame now (now, fd, td)]\<rparr>"
  have s1: "saveFrame st now fd td = ?st1" by (rule saveFrame_first [OF assms(1,2)])
  have a: "isRecordingRef ?st1" using assms by simp
  have b: "recordingStartRef ?st1 = Some now" by simp
  show ?thesis unfolding t x liveTicks.simps s1 liveTicks_started [OF a b] by simp
qed

lemma sorted_shift:
  assumes "sorted (map fst ticks)"
  shows "sorted (map t (map (mkFrame s) ticks))"
proof -
  have "map t (map (mkFrame s) ticks) = map (\<lambda>v. v - s) (map fst ticks)"
    by (simp add: mkFrame_def comp_def)
  moreover have "sorted (map (\<lambda>v. v - s) (map fst ticks))"
    by (rule sorted_map_mono [OF assms]) (simp add: mono_on_def)
  ultimately show ?thesis by (simp only:)
qed

lemma toggle_stop_empty:
  assumes "isRecordingRef st" "\<not> isReplaying st" "recordedFramesRef st = []"
  shows "recordings (handleToggleRecording st c s) = recordings st"
  using assms by (simp add: handleToggleRecording_def Let_def)

lemma toggle_stop_frames:
  assumes "isRecordingRef st" "\<not> isReplaying st" "recordedFramesRef st \<noteq> []"
  shows "recordings (handleToggleRecording st c s) = Captured (newRecording st c s) # recordings st"
  using assms by (simp add: handleToggleRecording_def Let_def newRecording_def)

lemma toggle_start:
  assumes "\<not> isRecordingRef st" "\<not> isReplaying st"
  shows "handleToggleRecording st c s =
     st\<lparr>recordingStartRef := None, recordedFramesRef := [], isRecordingRef := True\<rparr>"
  using assms by (simp add: handleToggleRecording_def)


lemma last_map_mkFrame:
  assumes "ticks \<noteq> []"
  shows "t (last (map (mkFrame s) ticks)) = fst (last ticks) - s"
  using assms by (simp add: last_map mkFrame_def)

text \<open>
  C7. Recording finalization. Stopping a recording with no captured frame leaves the
  collection unchanged; stopping with at least one frame puts a new recording in front of
  the collection, whose \<open>durationMs\<close> is the \<open>t\<close> of the last captured frame and whose frames
  are the captured ones. For a whole session (start, live ticks at the clock values of a
  non-decreasing clock, stop): no tick gives no recording, and otherwise the recording holds
  one frame per tick, in non-decreasing order of \<open>t\<close>, with \<open>durationMs\<close> the time from the
  first tick to the last.
\<close>

theorem recording_finalization:
  assumes "\<not> isReplaying st" and "\<not> isRecordingRef st" and "sorted (map fst ticks)"
  shows "(isRecordingRef st' \<and> \<not> isReplaying st' \<and> recordedFramesRef st' = [] \<longrightarrow>
            recordings (handleToggleRecording st' c s) = recordings st')
     \<and> (isRecordingRef st' \<and> \<not> isReplaying st' \<and> recordedFramesRef st' \<noteq> [] \<longrightarrow>
            (\<exists>r. recordings (handleToggleRecording st' c s) = Captured r # recordings st'
               \<and> rec_durationMs r = t (last (recordedFramesRef st'))
               \<and> rec_frames r = recordedFramesRef st'))
     \<and> (ticks = [] \<longrightarrow>
            recordings (handleToggleRecording
                          (liveTicks (handleToggleRecording st c0 s0) ticks) c s)
              = recordings st)
     \<and> (ticks \<noteq> [] \<longrightarrow>
            (\<exists>r. recordings (handleToggleRecording
                                (liveTicks (handleToggleRecording st c0 s0) ticks) c s)
                    = Captured r # recordings st
               \<and> rec_durationMs r = fst (last ticks) - fst (hd ticks)
               \<and> rec_durationMs r = t (last (rec_frames r))
               \<and> length (rec_frames r) = length ticks
               \<and> map t (rec_frames r) = map (\<lambda>x. fst x - fst (hd ticks)) ticks
               \<and> sorted (map t (rec_frames r))))"
proof (intro conjI impI)
  assume "isRecordingRef st' \<and> \<not> isReplaying st' \<and> recordedFramesRef st' = []"
  then show "recordings (handleToggleRecording st' c s) = recordings st'"
    using toggle_stop_empty by blast
next
  assume h: "isRecordingRef st' \<and> \<not> isReplaying st' \<and> recordedFramesRef st' \<noteq> []"
  then have "recordings (handleToggleRecording st' c s)
      = Captured (newRecording st' c s) # recordings st'"
    using toggle_stop_frames by blast
  then show "\<exists>r. recordings (handleToggleRecording st' c s) = Captured r # recordings st'
               \<and> rec_durationMs r = t (last (recordedFramesRef st'))
               \<and> rec_frames r = recordedFramesRef st'"
    by (intro exI [of _ "newRecording st' c s"]) (simp add: newRecording_def)
next
  let ?st1 = "handleToggleRecording st c0 s0"
  have st1: "?st1 = st\<lparr>recordingStartRef := None, recordedFramesRef := [], isRecordingRef := True\<rparr>"
    by (rule toggle_start [OF assms(2,1)])
  assume "ticks = []"
  then have "liveTicks ?st1 ticks = ?st1" by simp
  moreover have "recordings (handleToggleRecording ?st1 c s) = recordings ?st1"
    by (rule toggle_stop_empty) (simp_all add: st1 assms)
  ultimately show "recordings (handleToggleRecording (liveTicks ?st1 ticks) c s) = recordings st"
    by (simp add: st1)
next
  let ?st1 = "handleToggleRecording st c0 s0"
  have st1: "?st1 = st\<lparr>recordingStartRef := None, recordedFramesRef := [], isRecordingRef := True\<rparr>"
    by (rule toggle_start [OF assms(2,1)])
  assume ne: "ticks \<noteq> []"
  define s1 where "s1 = fst (hd ticks)"
  define st2 where "st2 = liveTicks ?st1 ticks"
  have st2: "st2 = ?st1\<lparr>recordingStartRef := Some s1, recordedFramesRef := map (mkFrame s1) ticks\<rparr>"
    unfolding st2_def s1_def by (rule liveTicks_fresh) (simp_all add: st1 ne)
  have fr: "recordedFramesRef st2 = map (mkFrame s1) ticks" by (simp add: st2)
  have a: "isRecordingRef st2" by (simp add: st2 st1)
  have b: "\<not> isReplaying st2" using assms(1) by (simp add: st2 st1)
  have c: "recordedFramesRef st2 \<noteq> []" using ne by (simp add: fr)
  have rs: "recordings st2 = recordings st" by (simp add: st2 st1)
  have eq: "recordings (handleToggleRecording st2 c s) = Captured (newRecording st2 c s) # recordings st"
    using toggle_stop_frames [OF a b c, of c s] rs by simp
  have d: "rec_durationMs (newRecording st2 c s) = fst (last ticks) - s1"
    using last_map_mkFrame [OF ne, of s1] by (simp add: newRecording_def fr)
  have f: "rec_frames (newRecording st2 c s) = map (mkFrame s1) ticks"
    by (simp add: newRecording_def fr)
  have d2: "rec_durationMs (newRecording st2 c s) = t (last (rec_frames (newRecording st2 c s)))"
    by (simp add: newRecording_def)
  have m: "map t (map (mkFrame s1) ticks) = map (\<lambda>x. fst x - s1) ticks"
    by (simp add: mkFrame_def)
  have srt: "sorted (map t (map (mkFrame s1) ticks))" by (rule sorted_shift [OF assms(3)])
  show "\<exists>r. recordings (handleToggleRecording (liveTicks ?st1 ticks) c s)
                    = Captured r # recordings st
               \<and> rec_durationMs r = fst (last ticks) - fst (hd ticks)
               \<and> rec_durationMs r = t (last (rec_frames r))
               \<and> length (rec_frames r) = length ticks
               \<and> map t (rec_frames r) = map (\<lambda>x. fst x - fst (hd ticks)) ticks
               \<and> sorted (map t (rec_frames r))"
    unfolding st2_def [symmetric] s1_def [symmetric]
    apply (rule exI [of _ "newRecording st2 c s"])
    apply (intro conjI)
         apply (rule eq)
        apply (rule d)
       apply (rule d2)
      apply (simp add: f)
     apply (simp only: f m)
    apply (simp only: f srt)
    done
qed


theorem recording_finalization_witness:
  "\<not> isReplaying initialApp \<and> \<not> isRecordingRef initialApp
   \<and> sorted (map fst [(1000 :: real, [10 :: int], [128 :: int]), (1033, [11], [128]), (1066, [12], [128])])
   \<and> (\<exists>r. recordings (handleToggleRecording
              (liveTicks (handleToggleRecording initialApp 0 [])
                 [(1000, [10], [128]), (1033, [11], [128]), (1066, [12], [128])]) 0 [])
            = [Captured r]
          \<and> rec_durationMs r = 66 \<and> map t (rec_frames r) = [0, 33, 66]
          \<and> sorted (map t (rec_frames r)))
   \<and> recordings (handleToggleRecording
         (liveTicks (handleToggleRecording initialApp 0 []) []) 0 []) = []"
proof -
  let ?ticks = "[(1000 :: real, [10 :: int], [128 :: int]), (1033, [11], [128]), (1066, [12], [128])]"
  have h1: "\<not> isReplaying initialApp" by (simp add: initialApp_def)
  have h2: "\<not> isRecordingRef initialApp" by (simp add: initialApp_def)
  have h3: "sorted (map fst ?ticks)" by simp
  have h4: "sorted (map fst ([] :: (real \<times> int list \<times> int list) list))" by simp
  have r0: "recordings initialApp = []" by (simp add: initialApp_def)
  from recording_finalization [OF h1 h2 h3, of initialApp 0 "[]" 0 "[]"]
  obtain r where
    r: "recordings (handleToggleRecording
              (liveTicks (handleToggleRecording initialApp 0 []) ?ticks) 0 [])
            = Captured r # recordings initialApp"
      "rec_durationMs r = fst (last ?ticks) - fst (hd ?ticks)"
      "map t (rec_frames r) = map (\<lambda>x. fst x - fst (hd ?ticks)) ?ticks"
      "sorted (map t (rec_frames r))"
    by auto
  have one: "\<exists>r. recordings (handleToggleRecording
              (liveTicks (handleToggleRecording initialApp 0 []) ?ticks) 0 [])
            = [Captured r]
          \<and> rec_durationMs r = 66 \<and> map t (rec_frames r) = [0, 33, 66]
          \<and> sorted (map t (rec_frames r))"
    using r r0 by (intro exI [of _ r]) simp
  from recording_finalization [OF h1 h2 h4, of initialApp 0 "[]" 0 "[]"]
  have two: "recordings (handleToggleRecording
         (liveTicks (handleToggleRecording initialApp 0 []) []) 0 []) = []"
    using r0 by simp
  show ?thesis using h1 h2 h3 one two by (intro conjI)
qed

section \<open>Properties of the import\<close>

lemma frames_case:
  "(case getProp item ''frames'' of Some (JArr xs) \<Rightarrow> xs | _ \<Rightarrow> [])
      = (case framesArray item of Some xs \<Rightarrow> xs | None \<Rightarrow> [])"
proof (cases "getProp item ''frames''")
  case None
  then show ?thesis by (simp add: framesArray_def)
next
  case (Some v)
  then show ?thesis by (cases v) (simp_all add: framesArray_def)
qed

lemma importEntry_ne:
  assumes "item \<noteq> JNull"
  shows "importEntry e st idx item \<noteq> None"
  using assms unfolding importEntry_def Let_def by (simp only: if_False) blast

lemma importEntry_frames:
  assumes "importEntry e st idx item = Some r"
  shows "imp_frames r = (case framesArray item of Some xs \<Rightarrow> xs | None \<Rightarrow> [])"
proof -
  have ne: "item \<noteq> JNull" using assms by (auto simp: importEntry_def)
  have "imp_frames r = (case getProp item ''frames'' of Some (JArr xs) \<Rightarrow> xs | _ \<Rightarrow> [])"
    using assms unfolding importEntry_def Let_def if_not_P [OF ne] option.inject
    by (elim subst) (simp only: imported.simps)
  then show ?thesis by (simp only: frames_case)
qed

lemma importEntry_Some:
  assumes "item \<noteq> JNull"
  shows "\<exists>r. importEntry e st idx item = Some r
     \<and> imp_frames r = (case framesArray item of Some xs \<Rightarrow> xs | None \<Rightarrow> [])"
proof -
  obtain r where r: "importEntry e st idx item = Some r"
    using importEntry_ne [OF assms, of e st idx] by blast
  show ?thesis using r importEntry_frames [OF r] by (intro exI [of _ r] conjI)
qed

lemma importAll_Some:
  assumes "JNull \<notin> set items"
  shows "\<exists>rs. importAll e st idx items = Some rs \<and> length rs = length items
     \<and> (\<forall>i<length items. imp_frames (rs ! i)
            = (case framesArray (items ! i) of Some xs \<Rightarrow> xs | None \<Rightarrow> []))"
  using assms
proof (induction items arbitrary: idx)
  case Nil
  then show ?case by simp
next
  case (Cons item rest)
  have ne: "item \<noteq> JNull" using Cons.prems by auto
  from importEntry_Some [OF ne, of e st idx] obtain r where
    r: "importEntry e st idx item = Some r"
       "imp_frames r = (case framesArray item of Some xs \<Rightarrow> xs | None \<Rightarrow> [])" by blast
  have "JNull \<notin> set rest" using Cons.prems by simp
  from Cons.IH [OF this, of "idx + 1"] obtain rs where
    rs: "importAll e st (idx + 1) rest = Some rs" "length rs = length rest"
        "\<forall>i<length rest. imp_frames (rs ! i)
            = (case framesArray (rest ! i) of Some xs \<Rightarrow> xs | None \<Rightarrow> [])" by blast
  have a: "importAll e st idx (item # rest) = Some (r # rs)" using r(1) rs(1) by simp
  have b: "length (r # rs) = length (item # rest)" using rs(2) by simp
  have c: "\<forall>i<length (item # rest). imp_frames ((r # rs) ! i)
            = (case framesArray ((item # rest) ! i) of Some xs \<Rightarrow> xs | None \<Rightarrow> [])"
  proof (intro allI impI)
    fix i assume "i < length (item # rest)"
    then show "imp_frames ((r # rs) ! i)
            = (case framesArray ((item # rest) ! i) of Some xs \<Rightarrow> xs | None \<Rightarrow> [])"
      using r(2) rs(3) by (cases i) simp_all
  qed
  show ?case using a b c by (intro exI [of _ "r # rs"] conjI)
qed

lemma importAll_None:
  assumes "JNull \<in> set items"
  shows "importAll e st idx items = None"
  using assms
proof (induction items arbitrary: idx)
  case Nil
  then show ?case by simp
next
  case (Cons item rest)
  show ?case
  proof (cases "item = JNull")
    case True
    have "importEntry e st idx JNull = None" by (simp add: importEntry_def)
    then show ?thesis unfolding True by simp
  next
    case False
    then have "JNull \<in> set rest" using Cons.prems by auto
    then have r: "importAll e st (idx + 1) rest = None" by (rule Cons.IH)
    show ?thesis
    proof (cases "importEntry e st idx item")
      case None
      then show ?thesis by simp
    next
      case (Some x)
      then show ?thesis using r by simp
    qed
  qed
qed

text \<open>
  C8, as amended. The import does not skip an entry whose \<open>frames\<close> field is not an array.
  When no entry of the file's array is \<open>null\<close>, every entry becomes one recording, in
  order, in front of the collection, without a crash; its frame list is the \<open>frames\<close>
  array of the entry when that is an array, and the empty list otherwise. When an entry is
  \<open>null\<close>, the error is caught and nothing of the batch is imported: the state stays as it
  is. So a file with one well-formed recording and one object whose \<open>frames\<close> is not an
  array adds two recordings, the second one with no frames.
\<close>

theorem import_keeps_every_entry:
  "(JNull \<notin> set items \<longrightarrow>
      (\<exists>rs. recordings (handleImportFile e st (Some (JArr items)))
                = map Imported rs @ recordings st
         \<and> length rs = length items
         \<and> (\<forall>i<length items. imp_frames (rs ! i)
                = (case framesArray (items ! i) of Some xs \<Rightarrow> xs | None \<Rightarrow> []))))
   \<and> (JNull \<in> set items \<longrightarrow> handleImportFile e st (Some (JArr items)) = st)"
proof (intro conjI impI)
  assume nn: "JNull \<notin> set items"
  from importAll_Some [OF nn, of e st 0] obtain rs where
    rs: "importAll e st 0 items = Some rs" "length rs = length items"
        "\<forall>i<length items. imp_frames (rs ! i)
            = (case framesArray (items ! i) of Some xs \<Rightarrow> xs | None \<Rightarrow> [])" by blast
  have "recordings (handleImportFile e st (Some (JArr items))) = map Imported rs @ recordings st"
    using rs(1) by (simp add: handleImportFile_def)
  then show "\<exists>rs. recordings (handleImportFile e st (Some (JArr items)))
                = map Imported rs @ recordings st
         \<and> length rs = length items
         \<and> (\<forall>i<length items. imp_frames (rs ! i)
                = (case framesArray (items ! i) of Some xs \<Rightarrow> xs | None \<Rightarrow> []))"
    using rs(2,3) by (intro exI [of _ rs] conjI)
next
  assume "JNull \<in> set items"
  then have "importAll e st 0 items = None" by (rule importAll_None)
  then show "handleImportFile e st (Some (JArr items)) = st"
    by (simp add: handleImportFile_def)
qed

theorem import_keeps_every_entry_witness:
  "JNull \<notin> set [JObj [(''label'', JStr ''good''), (''durationMs'', JNum 33),
                         (''frames'', JArr [JObj [(''t'', JNum 0)], JObj [(''t'', JNum 33)]])],
                   JObj [(''label'', JStr ''bad''), (''frames'', JStr ''oops'')]]
   \<and> (\<exists>rs. recordings (handleImportFile sampleEnv initialApp
               (Some (JArr [JObj [(''label'', JStr ''good''), (''durationMs'', JNum 33),
                                  (''frames'', JArr [JObj [(''t'', JNum 0)], JObj [(''t'', JNum 33)]])],
                            JObj [(''label'', JStr ''bad''), (''frames'', JStr ''oops'')]])))
             = map Imported rs
          \<and> length rs = 2
          \<and> imp_frames (rs ! 0) = [JObj [(''t'', JNum 0)], JObj [(''t'', JNum 33)]]
          \<and> imp_frames (rs ! 1) = [])
   \<and> JNull \<in> set [JObj [(''label'', JStr ''good''), (''durationMs'', JNum 33),
                         (''frames'', JArr [JObj [(''t'', JNum 0)], JObj [(''t'', JNum 33)]])],
                   JNull]
   \<and> handleImportFile sampleEnv initialApp
        (Some (JArr [JObj [(''label'', JStr ''good''), (''durationMs'', JNum 33),
                           (''frames'', JArr [JObj [(''t'', JNum 0)], JObj [(''t'', JNum 33)]])],
                     JNull])) = initialApp"
proof -
  let ?good = "JObj [(''label'', JStr ''good''), (''durationMs'', JNum 33),
                     (''frames'', JArr [JObj [(''t'', JNum 0)], JObj [(''t'', JNum 33)]])]"
  let ?bad = "JObj [(''label'', JStr ''bad''), (''frames'', JStr ''oops'')]"
  have h: "JNull \<notin> set [?good, ?bad]" by simp
  have n: "JNull \<in> set [?good, JNull]" by simp
  have r0: "recordings initialApp = []" by (simp add: initialApp_def)
  have f0: "framesArray ?good = Some [JObj [(''t'', JNum 0)], JObj [(''t'', JNum 33)]]"
    by (simp add: framesArray_def)
  have f1: "framesArray ?bad = None" by (simp add: framesArray_def)
  from import_keeps_every_entry [of "[?good, ?bad]" sampleEnv initialApp] h obtain rs where
    rs: "recordings (handleImportFile sampleEnv initialApp (Some (JArr [?good, ?bad])))
           = map Imported rs @ recordings initialApp"
        "length rs = length [?good, ?bad]"
        "\<forall>i<length [?good, ?bad]. imp_frames (rs ! i)
            = (case framesArray ([?good, ?bad] ! i) of Some xs \<Rightarrow> xs | None \<Rightarrow> [])"
    by blast
  have a: "imp_frames (rs ! 0) = [JObj [(''t'', JNum 0)], JObj [(''t'', JNum 33)]]"
    using rs(3) [rule_format, of 0] f0 by simp
  have b: "imp_frames (rs ! 1) = []"
    using rs(3) [rule_format, of 1] f1 by simp
  have one: "\<exists>rs. recordings (handleImportFile sampleEnv initialApp (Some (JArr [?good, ?bad])))
             = map Imported rs
          \<and> length rs = 2
          \<and> imp_frames (rs ! 0) = [JObj [(''t'', JNum 0)], JObj [(''t'', JNum 33)]]
          \<and> imp_frames (rs ! 1) = []"
    using rs(1,2) r0 a b by (intro exI [of _ rs]) simp
  from import_keeps_every_entry [of "[?good, JNull]" sampleEnv initialApp] n
  have two: "handleImportFile sampleEnv initialApp (Some (JArr [?good, JNull])) = initialApp"
    by blast
  show ?thesis using h one n two by (intro conjI)
qed

text \<open>
  C8 as stated fails: the entry whose \<open>frames\<close> is the string \<open>oops\<close> is imported too, with an
  empty frame list, so the file adds two recordings and not one.
\<close>

theorem import_non_array_counterexample:
  "framesArray (JObj [(''label'', JStr ''bad''), (''frames'', JStr ''oops'')]) = None
   \<and> recordings (handleImportFile sampleEnv initialApp
        (Some (JArr [JObj [(''label'', JStr ''good''), (''durationMs'', JNum 33),
                           (''frames'', JArr [JObj [(''t'', JNum 0), (''freq'', JArr [JNum 7]),
                                                      (''timeDomain'', JArr [JNum 128])],
                                              JObj [(''t'', JNum 33), (''freq'', JArr [JNum 9]),
                                                      (''timeDomain'', JArr [JNum 128])]])],
                     JObj [(''label'', JStr ''bad''), (''frames'', JStr ''oops'')]])))
     = [Imported \<lparr>imp_id = ''1700000000000-0-k3x9q7'', imp_label = JStr ''good'',
                   imp_createdAt = JStr ''10:15:00 AM'', imp_durationMs = JNum 33,
                   imp_nyquistHz = 20000, imp_sampleRate = 44100, imp_fftSize = 2048,
                   imp_bufferLength = 1024,
                   imp_frames = [JObj [(''t'', JNum 0), (''freq'', JArr [JNum 7]),
                                        (''timeDomain'', JArr [JNum 128])],
                                 JObj [(''t'', JNum 33), (''freq'', JArr [JNum 9]),
                                        (''timeDomain'', JArr [JNum 128])]]\<rparr>,
        Imported \<lparr>imp_id = ''1700000000000-1-k3x9q7'', imp_label = JStr ''bad'',
                   imp_createdAt = JStr ''10:15:00 AM'', imp_durationMs = JNum 0,
                   imp_nyquistHz = 20000, imp_sampleRate = 44100, imp_fftSize = 2048,
                   imp_bufferLength = 1024, imp_frames = []\<rparr>]"
  by (simp add: handleImportFile_def importEntry_def sampleEnv_def initialApp_def framesArray_def jsOr_def numOr_def Let_def showNat.simps)

section \<open>Properties of the hover read-outs\<close>

lemma clamp_bounds:
  "lo \<le> hi \<Longrightarrow> lo \<le> max lo (min hi z) \<and> max lo (min hi z) \<le> (hi::real)"
  by auto

text \<open>
  C10. Hover on the spectrum plot. With the width \<open>W\<close> of the canvas and the buffer length
  \<open>L\<close>, sample rate \<open>SR\<close> and transform size \<open>N\<close> in force, the frequency shown at pixel \<open>x\<close> is
  the centre frequency \<open>(b + 1/2) * SR / N\<close> of the bin
  \<open>b = min (L - 1) (round (clamp x 0 (W - 1)) * ceil (L / W))\<close>, clamped to 0 .. 20000: the
  lower clamp is 0 Hz. The hover on the spectrogram clamps its frequency to 5 .. 20000 Hz.
\<close>

theorem spectrum_hover_frequency:
  assumes "W = orDefault (real w) 1" and "L = orDefault (bufferLengthRef st) 1024"
    and "SR = orDefault (sampleRateRef st) 44100" and "N = orDefault (fftSizeRef st) 2048"
  shows "hoverFreqHz (handleSpectrumHover st (Some w) x)
           = Some (max 0 (min 20000
               ((min (L - 1) (real_of_int \<lfloor>min (max x 0) (W - 1) + 1 / 2\<rfloor>
                                * real_of_int \<lceil>L / W\<rceil>) + 1 / 2) * SR / N)))
     \<and> (\<forall>v. hoverFreqHz (handleSpectrumHover st (Some w) x) = Some v
            \<longrightarrow> 0 \<le> v \<and> v \<le> 20000)
     \<and> hoverFreqHz (handleSpectrogramHover st (Some h) y)
           = (if h \<le> 1 then None
              else Some (max 5 (min 20000
                     (yToFreq (min (max y 0) (real h - 1)) h (useLogScale st)))))
     \<and> (\<forall>v. hoverFreqHz (handleSpectrogramHover st (Some h) y) = Some v
            \<longrightarrow> 5 \<le> v \<and> v \<le> 20000)"
proof -
  define z where "z = (min (L - 1) (real_of_int \<lfloor>min (max x 0) (W - 1) + 1 / 2\<rfloor>
                                * real_of_int \<lceil>L / W\<rceil>) + 1 / 2) * SR / N"
  define u where "u = yToFreq (min (max y 0) (real h - 1)) h (useLogScale st)"
  have a: "hoverFreqHz (handleSpectrumHover st (Some w) x) = Some (max 0 (min 20000 z))"
    unfolding z_def assms by (simp add: handleSpectrumHover_def Let_def)
  have b: "\<forall>v. hoverFreqHz (handleSpectrumHover st (Some w) x) = Some v
            \<longrightarrow> 0 \<le> v \<and> v \<le> 20000"
    unfolding a using clamp_bounds [of 0 20000 z] by simp
  have c: "hoverFreqHz (handleSpectrogramHover st (Some h) y)
           = (if h \<le> 1 then None else Some (max 5 (min 20000 u)))"
  proof (cases "h = 0")
    case True
    then show ?thesis by (simp add: handleSpectrogramHover_def Let_def)
  next
    case False
    then have "(if h = 0 then 1 else h) = h" by simp
    moreover have "(real h - 1 \<le> 0) = (h \<le> 1)" by auto
    ultimately show ?thesis unfolding u_def by (simp add: handleSpectrogramHover_def Let_def)
  qed
  have d: "\<forall>v. hoverFreqHz (handleSpectrogramHover st (Some h) y) = Some v
            \<longrightarrow> 5 \<le> v \<and> v \<le> 20000"
    unfolding c using clamp_bounds [of 5 20000 u] by simp
  show ?thesis using a b c d unfolding z_def u_def by (intro conjI)
qed

theorem spectrum_hover_frequency_witness:
  "(512::real) = orDefault (real 512) 1
   \<and> (1024::real) = orDefault (bufferLengthRef (initialApp\<lparr>sampleRateRef := 8000, useLogScale := False\<rparr>)) 1024
   \<and> (8000::real) = orDefault (sampleRateRef (initialApp\<lparr>sampleRateRef := 8000, useLogScale := False\<rparr>)) 44100
   \<and> (2048::real) = orDefault (fftSizeRef (initialApp\<lparr>sampleRateRef := 8000, useLogScale := False\<rparr>)) 2048
   \<and> hoverFreqHz (handleSpectrumHover (initialApp\<lparr>sampleRateRef := 8000, useLogScale := False\<rparr>) (Some 512) 0)
       = Some (125 / 64)
   \<and> hoverFreqHz (handleSpectrogramHover (initialApp\<lparr>sampleRateRef := 8000, useLogScale := False\<rparr>) (Some 320) 319)
       = Some 5"
proof -
  let ?st = "initialApp\<lparr>sampleRateRef := 8000, useLogScale := False\<rparr>"
  have h1: "(512::real) = orDefault (real 512) 1" by (simp add: orDefault_def)
  have h2: "(1024::real) = orDefault (bufferLengthRef ?st) 1024"
    by (simp add: orDefault_def initialApp_def)
  have h3: "(8000::real) = orDefault (sampleRateRef ?st) 44100"
    by (simp add: orDefault_def initialApp_def)
  have h4: "(2048::real) = orDefault (fftSizeRef ?st) 2048"
    by (simp add: orDefault_def initialApp_def)
  note th = spectrum_hover_frequency [OF h1 h2 h3 h4, of 0 320 319]
  have a: "hoverFreqHz (handleSpectrumHover ?st (Some 512) 0) = Some (125 / 64)"
    using th by simp
  have "yToFreq (min (max 319 0) (real 320 - 1)) 320 False < 5"
    by (simp add: yToFreq_def minFreq_def maxFreq_def Let_def)
  then have b: "hoverFreqHz (handleSpectrogramHover ?st (Some 320) 319) = Some 5"
    using th by (simp add: initialApp_def)
  show ?thesis using h1 h2 h3 h4 a b by (intro conjI)
qed

end
